theory Spec2Isabelle
  imports Complex_Main "HOL-Library.Sublist"
begin

section \<open>Tool arguments as JSON values\<close>

text \<open>
  The handlers of \<^verbatim>\<open>src/index.ts\<close> receive \<^verbatim>\<open>args: unknown\<close>, the
  \<^verbatim>\<open>arguments\<close> member of a tool call. A value of this kind is a JSON value, or
  \<^verbatim>\<open>undefined\<close> when the member is missing: \<open>json option\<close>, with \<open>None\<close> for
  \<^verbatim>\<open>undefined\<close>. A number is the value of the double it was read into. An object is
  the list of its members, each key once; \<open>map_of\<close> reads a member and gives \<open>None\<close>
  for a key the object does not have.
\<close>

datatype json =
    JNull
  | JBool bool
  | JNum rat
  | JStr string
  | JArr "json list"
  | JObj "(string \<times> json) list"

section \<open>The schema combinators\<close>

text \<open>
  The schemas of lines 16 to 105 are built from the combinators of the validation library.
  A parse collects issues and gives a value unless it was aborted: a type mismatch aborts,
  a failed \<^verbatim>\<open>min\<close>, \<^verbatim>\<open>max\<close> or \<^verbatim>\<open>refine\<close> check records an issue and carries on.
  \<^verbatim>\<open>Schema.parse\<close> returns the value when no issue was recorded and throws the
  validation error holding the issues otherwise.
\<close>

datatype seg = Key string | Idx nat

datatype issue =
    Invalid_type "seg list"
  | Too_small "seg list"
  | Too_big "seg list"
  | Invalid_enum_value "seg list"
  | Custom "seg list" string

type_synonym 'a parsed = "issue list \<times> 'a option"

text \<open>What a handler can throw: the validation error of a schema, or an \<^verbatim>\<open>Error\<close>
  with its message (any other thrown value is kept as the text \<^verbatim>\<open>String(error)\<close>).\<close>

datatype error = ZodError "issue list" | Error string

definition ok :: "'a \<Rightarrow> 'a parsed" where
  "ok x = ([], Some x)"

text \<open>Members of an object are parsed one after the other, all issues are kept, and the
  object has a value only when every member has one.\<close>

definition ap :: "('a \<Rightarrow> 'b) parsed \<Rightarrow> 'a parsed \<Rightarrow> 'b parsed" where
  "ap pf px = (fst pf @ fst px,
     (case snd pf of None \<Rightarrow> None
      | Some f \<Rightarrow> (case snd px of None \<Rightarrow> None | Some x \<Rightarrow> Some (f x))))"

definition z_string :: "seg list \<Rightarrow> json option \<Rightarrow> string parsed" where
  "z_string p v = (case v of Some (JStr s) \<Rightarrow> ([], Some s) | _ \<Rightarrow> ([Invalid_type p], None))"

definition z_boolean :: "seg list \<Rightarrow> json option \<Rightarrow> bool parsed" where
  "z_boolean p v = (case v of Some (JBool b) \<Rightarrow> ([], Some b) | _ \<Rightarrow> ([Invalid_type p], None))"

text \<open>\<^verbatim>\<open>z.number()\<close> with optional \<^verbatim>\<open>.min(lo)\<close> and \<^verbatim>\<open>.max(hi)\<close>.\<close>

definition z_number :: "rat option \<Rightarrow> rat option \<Rightarrow> seg list \<Rightarrow> json option \<Rightarrow> rat parsed" where
  "z_number lo hi p v = (case v of
       Some (JNum x) \<Rightarrow>
         ((case lo of None \<Rightarrow> [] | Some l \<Rightarrow> if x < l then [Too_small p] else []) @
          (case hi of None \<Rightarrow> [] | Some h \<Rightarrow> if h < x then [Too_big p] else []),
          Some x)
     | _ \<Rightarrow> ([Invalid_type p], None))"

definition z_optional :: "(seg list \<Rightarrow> json option \<Rightarrow> 'a parsed) \<Rightarrow> seg list \<Rightarrow> json option \<Rightarrow> 'a option parsed" where
  "z_optional f p v = (case v of
       None \<Rightarrow> ([], Some None)
     | Some j \<Rightarrow> (fst (f p v), map_option Some (snd (f p v))))"

definition z_default :: "json \<Rightarrow> (seg list \<Rightarrow> json option \<Rightarrow> 'a parsed) \<Rightarrow> seg list \<Rightarrow> json option \<Rightarrow> 'a parsed" where
  "z_default d f p v = (case v of None \<Rightarrow> f p (Some d) | Some j \<Rightarrow> f p v)"

text \<open>\<^verbatim>\<open>z.enum([...])\<close>, given as the table from the literal to the value it stands for.\<close>

definition z_enum :: "(string \<times> 'a) list \<Rightarrow> seg list \<Rightarrow> json option \<Rightarrow> 'a parsed" where
  "z_enum tab p v = (case v of
       Some (JStr s) \<Rightarrow> (case map_of tab s of
                          Some x \<Rightarrow> ([], Some x)
                        | None \<Rightarrow> ([Invalid_enum_value p], None))
     | _ \<Rightarrow> ([Invalid_type p], None))"

text \<open>The elements of an array, each under its index.\<close>

fun z_elems :: "(seg list \<Rightarrow> json option \<Rightarrow> 'a parsed) \<Rightarrow> seg list \<Rightarrow> nat \<Rightarrow> json list \<Rightarrow> 'a list parsed" where
  "z_elems f p i [] = ([], Some [])"
| "z_elems f p i (x # xs) =
     (fst (f (p @ [Idx i]) (Some x)) @ fst (z_elems f p (Suc i) xs),
      (case snd (f (p @ [Idx i]) (Some x)) of
         None \<Rightarrow> None
       | Some y \<Rightarrow> (case snd (z_elems f p (Suc i) xs) of
                     None \<Rightarrow> None
                   | Some ys \<Rightarrow> Some (y # ys))))"

text \<open>\<^verbatim>\<open>z.array(f).min(1)\<close>.\<close>

definition z_array_min1 :: "(seg list \<Rightarrow> json option \<Rightarrow> 'a parsed) \<Rightarrow> seg list \<Rightarrow> json option \<Rightarrow> 'a list parsed" where
  "z_array_min1 f p v = (case v of
       Some (JArr xs) \<Rightarrow>
         ((if length xs < 1 then [Too_small p] else []) @ fst (z_elems f p 0 xs),
          snd (z_elems f p 0 xs))
     | _ \<Rightarrow> ([Invalid_type p], None))"

text \<open>\<^verbatim>\<open>.refine(check, {message})\<close>: the check runs on the value of a parse that was not
  aborted.\<close>

definition z_refine :: "('a \<Rightarrow> bool) \<Rightarrow> string \<Rightarrow> seg list \<Rightarrow> 'a parsed \<Rightarrow> 'a parsed" where
  "z_refine check msg p r = (case snd r of
       None \<Rightarrow> r
     | Some x \<Rightarrow> if check x then r else (fst r @ [Custom p msg], Some x))"

definition parse :: "'a parsed \<Rightarrow> error + 'a" where
  "parse r = (case r of
       ([], Some x) \<Rightarrow> Inr x
     | (is, _) \<Rightarrow> Inl (ZodError is))"

definition accepts :: "'a parsed \<Rightarrow> bool" where
  "accepts r = (case parse r of Inr x \<Rightarrow> True | Inl e \<Rightarrow> False)"

text \<open>A member of an object.\<close>

definition member :: "(string \<times> json) list \<Rightarrow> string \<Rightarrow> json option" where
  "member kvs k = map_of kvs k"

text \<open>JavaScript truthiness of an optional string: \<^verbatim>\<open>undefined\<close> and the empty
  string are falsy.\<close>

definition truthy :: "string option \<Rightarrow> bool" where
  "truthy s = (case s of None \<Rightarrow> False | Some t \<Rightarrow> t \<noteq> [])"

section \<open>The schemas\<close>

text \<open>Lines 16 to 21.\<close>

record config =
  temperature :: "rat option"
  topP :: "rat option"
  topK :: "rat option"
  maxOutputTokens :: "rat option"

definition mk_config :: "rat option \<Rightarrow> rat option \<Rightarrow> rat option \<Rightarrow> rat option \<Rightarrow> config" where
  "mk_config t p k m = \<lparr>temperature = t, topP = p, topK = k, maxOutputTokens = m\<rparr>"

definition GenerationConfigSchema :: "seg list \<Rightarrow> json option \<Rightarrow> config parsed" where
  "GenerationConfigSchema p v = (case v of
       Some (JObj kvs) \<Rightarrow>
         ap (ap (ap (ap (ok mk_config)
           (z_optional (z_number (Some 0) (Some 2)) (p @ [Key ''temperature'']) (member kvs ''temperature'')))
           (z_optional (z_number (Some 0) (Some 1)) (p @ [Key ''topP'']) (member kvs ''topP'')))
           (z_optional (z_number (Some 1) (Some 40)) (p @ [Key ''topK'']) (member kvs ''topK'')))
           (z_optional (z_number None None) (p @ [Key ''maxOutputTokens'']) (member kvs ''maxOutputTokens''))
     | _ \<Rightarrow> ([Invalid_type p], None))"

text \<open>The argument schemas, lines 23 to 105. A parsed argument object is the tuple of its
  members in the order the schema lists them, as the handlers destructure it.\<close>

definition GenerateImageArgsSchema :: "json option \<Rightarrow> (string \<times> string option \<times> config option) parsed" where
  "GenerateImageArgsSchema v = (case v of
       Some (JObj kvs) \<Rightarrow>
         ap (ap (ap (ok (\<lambda>a b c. (a, b, c)))
           (z_string [Key ''prompt''] (member kvs ''prompt'')))
           (z_optional z_string [Key ''outputDir''] (member kvs ''outputDir'')))
           (z_optional GenerationConfigSchema [Key ''config''] (member kvs ''config''))
     | _ \<Rightarrow> ([Invalid_type []], None))"

definition EditImageArgsSchema ::
  "json option \<Rightarrow> (string \<times> string option \<times> string option \<times> string option \<times> config option) parsed" where
  "EditImageArgsSchema v = z_refine (\<lambda>(prompt, imageData, imagePath, outputDir, config).
         truthy imageData \<or> truthy imagePath)
       ''Either imageData or imagePath must be provided'' []
     (case v of
       Some (JObj kvs) \<Rightarrow>
         ap (ap (ap (ap (ap (ok (\<lambda>a b c d e. (a, b, c, d, e)))
           (z_string [Key ''prompt''] (member kvs ''prompt'')))
           (z_optional z_string [Key ''imageData''] (member kvs ''imageData'')))
           (z_optional z_string [Key ''imagePath''] (member kvs ''imagePath'')))
           (z_optional z_string [Key ''outputDir''] (member kvs ''outputDir'')))
           (z_optional GenerationConfigSchema [Key ''config''] (member kvs ''config''))
     | _ \<Rightarrow> ([Invalid_type []], None))"

definition AnalyzeImageArgsSchema ::
  "json option \<Rightarrow> (string \<times> string option \<times> string option \<times> config option) parsed" where
  "AnalyzeImageArgsSchema v = z_refine (\<lambda>(prompt, imageData, imagePath, config).
         truthy imageData \<or> truthy imagePath)
       ''Either imageData or imagePath must be provided'' []
     (case v of
       Some (JObj kvs) \<Rightarrow>
         ap (ap (ap (ap (ok (\<lambda>a b c d. (a, b, c, d)))
           (z_string [Key ''prompt''] (member kvs ''prompt'')))
           (z_optional z_string [Key ''imageData''] (member kvs ''imageData'')))
           (z_optional z_string [Key ''imagePath''] (member kvs ''imagePath'')))
           (z_optional GenerationConfigSchema [Key ''config''] (member kvs ''config''))
     | _ \<Rightarrow> ([Invalid_type []], None))"

text \<open>An element of \<^verbatim>\<open>images\<close>: \<^verbatim>\<open>imageData\<close>, \<^verbatim>\<open>imagePath\<close>, \<^verbatim>\<open>description\<close>.\<close>

type_synonym image = "string option \<times> string option \<times> string option"

definition ImageSchema :: "seg list \<Rightarrow> json option \<Rightarrow> image parsed" where
  "ImageSchema p v = (case v of
       Some (JObj kvs) \<Rightarrow>
         ap (ap (ap (ok (\<lambda>a b c. (a, b, c)))
           (z_optional z_string (p @ [Key ''imageData'']) (member kvs ''imageData'')))
           (z_optional z_string (p @ [Key ''imagePath'']) (member kvs ''imagePath'')))
           (z_optional z_string (p @ [Key ''description'']) (member kvs ''description''))
     | _ \<Rightarrow> ([Invalid_type p], None))"

definition MultiImageEditArgsSchema ::
  "json option \<Rightarrow> (string \<times> image list \<times> string option \<times> config option) parsed" where
  "MultiImageEditArgsSchema v = z_refine (\<lambda>(prompt, images, outputDir, config).
         list_all (\<lambda>(imageData, imagePath, description). truthy imageData \<or> truthy imagePath) images)
       ''Each image must have either imageData or imagePath'' []
     (case v of
       Some (JObj kvs) \<Rightarrow>
         ap (ap (ap (ap (ok (\<lambda>a b c d. (a, b, c, d)))
           (z_string [Key ''prompt''] (member kvs ''prompt'')))
           (z_array_min1 ImageSchema [Key ''images''] (member kvs ''images'')))
           (z_optional z_string [Key ''outputDir''] (member kvs ''outputDir'')))
           (z_optional GenerationConfigSchema [Key ''config''] (member kvs ''config''))
     | _ \<Rightarrow> ([Invalid_type []], None))"

definition BatchGenerateArgsSchema ::
  "json option \<Rightarrow> (string list \<times> string option \<times> config option \<times> bool option) parsed" where
  "BatchGenerateArgsSchema v = (case v of
       Some (JObj kvs) \<Rightarrow>
         ap (ap (ap (ap (ok (\<lambda>a b c d. (a, b, c, d)))
           (z_array_min1 z_string [Key ''prompts''] (member kvs ''prompts'')))
           (z_optional z_string [Key ''outputDir''] (member kvs ''outputDir'')))
           (z_optional GenerationConfigSchema [Key ''config''] (member kvs ''config'')))
           (z_optional z_boolean [Key ''parallel''] (member kvs ''parallel''))
     | _ \<Rightarrow> ([Invalid_type []], None))"

datatype compareType = differences | similarities | both

definition compareTypeName :: "compareType \<Rightarrow> string" where
  "compareTypeName c = (case c of differences \<Rightarrow> ''differences''
     | similarities \<Rightarrow> ''similarities'' | both \<Rightarrow> ''both'')"

definition CompareImagesArgsSchema ::
  "json option \<Rightarrow> (string \<times> string \<times> compareType option) parsed" where
  "CompareImagesArgsSchema v = (case v of
       Some (JObj kvs) \<Rightarrow>
         ap (ap (ap (ok (\<lambda>a b c. (a, b, c)))
           (z_string [Key ''image1Path''] (member kvs ''image1Path'')))
           (z_string [Key ''image2Path''] (member kvs ''image2Path'')))
           (z_optional (z_enum [(''differences'', differences), (''similarities'', similarities),
               (''both'', both)]) [Key ''compareType''] (member kvs ''compareType''))
     | _ \<Rightarrow> ([Invalid_type []], None))"

datatype variationStrength = subtle | moderate | strong

definition GenerateVariationsArgsSchema ::
  "json option \<Rightarrow> (string option \<times> string option \<times> rat \<times> variationStrength \<times> string option \<times> config option) parsed" where
  "GenerateVariationsArgsSchema v = z_refine (\<lambda>(imagePath, imageData, count, variationStrength, outputDir, config).
         truthy imageData \<or> truthy imagePath)
       ''Either imageData or imagePath must be provided'' []
     (case v of
       Some (JObj kvs) \<Rightarrow>
         ap (ap (ap (ap (ap (ap (ok (\<lambda>a b c d e f. (a, b, c, d, e, f)))
           (z_optional z_string [Key ''imagePath''] (member kvs ''imagePath'')))
           (z_optional z_string [Key ''imageData''] (member kvs ''imageData'')))
           (z_default (JNum 3) (z_number (Some 1) (Some 5)) [Key ''count''] (member kvs ''count'')))
           (z_default (JStr ''moderate'') (z_enum [(''subtle'', subtle), (''moderate'', moderate),
               (''strong'', strong)]) [Key ''variationStrength''] (member kvs ''variationStrength'')))
           (z_optional z_string [Key ''outputDir''] (member kvs ''outputDir'')))
           (z_optional GenerationConfigSchema [Key ''config''] (member kvs ''config''))
     | _ \<Rightarrow> ([Invalid_type []], None))"

datatype template = photorealistic | artistic | logo | portrait | landscape | product
  | architectural | fashion | food | abstract

definition templateName :: "template \<Rightarrow> string" where
  "templateName t = (case t of photorealistic \<Rightarrow> ''photorealistic'' | artistic \<Rightarrow> ''artistic''
     | logo \<Rightarrow> ''logo'' | portrait \<Rightarrow> ''portrait'' | landscape \<Rightarrow> ''landscape''
     | product \<Rightarrow> ''product'' | architectural \<Rightarrow> ''architectural'' | fashion \<Rightarrow> ''fashion''
     | food \<Rightarrow> ''food'' | abstract \<Rightarrow> ''abstract'')"

definition PromptTemplateArgsSchema ::
  "json option \<Rightarrow> (template \<times> string \<times> string option \<times> config option) parsed" where
  "PromptTemplateArgsSchema v = (case v of
       Some (JObj kvs) \<Rightarrow>
         ap (ap (ap (ap (ok (\<lambda>a b c d. (a, b, c, d)))
           (z_enum (map (\<lambda>t. (templateName t, t)) [photorealistic, artistic, logo, portrait,
               landscape, product, architectural, fashion, food, abstract])
             [Key ''template''] (member kvs ''template'')))
           (z_string [Key ''customization''] (member kvs ''customization'')))
           (z_optional z_string [Key ''outputDir''] (member kvs ''outputDir'')))
           (z_optional GenerationConfigSchema [Key ''config''] (member kvs ''config''))
     | _ \<Rightarrow> ([Invalid_type []], None))"

text \<open>Lines 112 to 123.\<close>

definition promptTemplates :: "template \<Rightarrow> string" where
  "promptTemplates t = (case t of
       photorealistic \<Rightarrow> ''Ultra-realistic photograph, professional photography, highly detailed, sharp focus, natural lighting, 8K resolution, shot with DSLR camera''
     | artistic \<Rightarrow> ''Artistic interpretation, creative style, expressive brushstrokes, vibrant colors, artistic composition, gallery-worthy artwork''
     | logo \<Rightarrow> ''Minimalist logo design, clean vector graphics, scalable, professional branding, modern design, simple geometric shapes, memorable icon''
     | portrait \<Rightarrow> ''Professional portrait photography, well-lit, shallow depth of field, bokeh background, natural skin tones, expressive eyes, studio lighting''
     | landscape \<Rightarrow> ''Breathtaking landscape photography, golden hour lighting, wide angle shot, dramatic sky, natural scenery, high dynamic range''
     | product \<Rightarrow> ''Product photography, white background, studio lighting, clean composition, commercial quality, detailed texture, professional presentation''
     | architectural \<Rightarrow> ''Architectural photography, precise lines, dramatic perspective, professional composition, detailed structure, impressive scale''
     | fashion \<Rightarrow> ''Fashion photography, editorial style, high-end fashion, professional model pose, stylish composition, magazine quality''
     | food \<Rightarrow> ''Food photography, appetizing presentation, professional styling, natural lighting, shallow depth of field, culinary art''
     | abstract \<Rightarrow> ''Abstract art, non-representational, creative composition, bold colors or monochrome, experimental style, artistic expression'')"

section \<open>The model service, the file system and the clock\<close>

text \<open>A part of a request or of a response: \<^verbatim>\<open>{text}\<close>, \<^verbatim>\<open>{inlineData: {data, mimeType}}\<close>,
  or a part of another kind.\<close>

datatype part = TextPart string | InlineDataPart string string | OtherPart

text \<open>The \<^verbatim>\<open>generationConfig\<close> of a request; \<open>None\<close> is a member left out or
  \<^verbatim>\<open>undefined\<close>.\<close>

record generationConfig =
  gc_temperature :: "rat option"
  gc_topP :: "rat option"
  gc_topK :: "rat option"
  gc_maxOutputTokens :: "rat option"
  responseModalities :: "string list option"

record request =
  model :: string
  parts :: "part list"
  generationConfig :: "generationConfig option"

text \<open>A response: its \<^verbatim>\<open>candidates\<close>, when there are any, each with a \<^verbatim>\<open>content\<close>
  (as the type of a candidate declares) and the \<^verbatim>\<open>content.parts\<close> it has, and what
  \<^verbatim>\<open>response.text()\<close> gives (\<open>Inl\<close> the message when it throws).\<close>

datatype candidate = Candidate "part list option"

datatype response = Response "candidate list option" "string + string"

text \<open>Every operation on the outside world is logged with its result. A result on the
  left is the message of what the operation threw.\<close>

datatype event =
    Call request "string + response"
  | Read string "string + string"
  | Mkdir string "string option"
  | Write string string "string option"

text \<open>
  The outside world and the library functions the handlers call. The result of an
  operation may depend on everything that happened before it.
  \<^item> \<open>generateContent\<close>: \<^verbatim>\<open>model.generateContent(request)\<close>;
  \<^item> \<open>readFile\<close>: \<^verbatim>\<open>(await fs.readFile(path)).toString('base64')\<close>;
  \<^item> \<open>mkdir\<close>: \<^verbatim>\<open>fs.mkdir(dir, {recursive: true})\<close>, \<open>Some\<close> the message when it throws;
  \<^item> \<open>writeFile\<close>: \<^verbatim>\<open>fs.writeFile(path, Buffer.from(data, 'base64'))\<close>;
  \<^item> \<open>toISOString\<close>: \<^verbatim>\<open>new Date().toISOString()\<close>;
  \<^item> \<open>join\<close>, \<open>extname\<close>: \<^verbatim>\<open>path.join\<close>, \<^verbatim>\<open>path.extname\<close>;
  \<^item> \<open>numberToString\<close>: a number inside a template literal;
  \<^item> \<open>zodMessage\<close>: the \<^verbatim>\<open>message\<close> of a validation error;
  \<^item> \<open>pick\<close>: which of the pending promises of a parallel batch settles next, as a
    position in the list of the pending indices.
\<close>

record env =
  generateContent :: "event list \<Rightarrow> request \<Rightarrow> string + response"
  readFile :: "event list \<Rightarrow> string \<Rightarrow> string + string"
  mkdir :: "event list \<Rightarrow> string \<Rightarrow> string option"
  writeFile :: "event list \<Rightarrow> string \<Rightarrow> string \<Rightarrow> string option"
  toISOString :: "event list \<Rightarrow> string"
  join :: "string \<Rightarrow> string \<Rightarrow> string"
  extname :: "string \<Rightarrow> string"
  numberToString :: "rat \<Rightarrow> string"
  zodMessage :: "issue list \<Rightarrow> string"
  pick :: "event list \<Rightarrow> nat list \<Rightarrow> nat"

definition callModel :: "env \<Rightarrow> request \<Rightarrow> event list \<Rightarrow> (string + response) \<times> event list" where
  "callModel env req tr = (generateContent env tr req, tr @ [Call req (generateContent env tr req)])"

definition fsReadFile :: "env \<Rightarrow> string \<Rightarrow> event list \<Rightarrow> (string + string) \<times> event list" where
  "fsReadFile env p tr = (readFile env tr p, tr @ [Read p (readFile env tr p)])"

definition fsMkdir :: "env \<Rightarrow> string \<Rightarrow> event list \<Rightarrow> string option \<times> event list" where
  "fsMkdir env d tr = (mkdir env tr d, tr @ [Mkdir d (mkdir env tr d)])"

definition fsWriteFile :: "env \<Rightarrow> string \<Rightarrow> string \<Rightarrow> event list \<Rightarrow> string option \<times> event list" where
  "fsWriteFile env p d tr = (writeFile env tr p d, tr @ [Write p d (writeFile env tr p d)])"

section \<open>Strings\<close>

text \<open>A natural number inside a template literal: its decimal digits.\<close>

fun showNat :: "nat \<Rightarrow> string" where
  "showNat n = (if n < 10 then [char_of (48 + n)]
                else showNat (n div 10) @ [char_of (48 + n mod 10)])"

declare showNat.simps [simp del]

text \<open>\<^verbatim>\<open>toLowerCase\<close> on the letters A to Z; the extensions it is compared with are
  made of the letters a to z.\<close>

definition toLowerCase :: "string \<Rightarrow> string" where
  "toLowerCase s = map (\<lambda>c. if (65::nat) \<le> of_char c \<and> of_char c \<le> (90::nat)
                            then char_of (of_char c + (32::nat)) else c) s"

text \<open>\<^verbatim>\<open>xs.join(sep)\<close>.\<close>

fun joinWith :: "string \<Rightarrow> string list \<Rightarrow> string" where
  "joinWith sep [] = []"
| "joinWith sep [x] = x"
| "joinWith sep (x # y # ys) = x @ sep @ joinWith sep (y # ys)"

text \<open>\<^verbatim>\<open>new Date().toISOString().replace(/[:.]/g, '-')\<close>.\<close>

definition timestamp :: "env \<Rightarrow> event list \<Rightarrow> string" where
  "timestamp env tr = map (\<lambda>c. if c = CHR '':'' \<or> c = CHR ''.'' then CHR ''-'' else c) (toISOString env tr)"

text \<open>The check mark and the ballot cross of the batch report, as UTF-8.\<close>

definition check_mark :: string where
  "check_mark = [char_of (0xE2::nat), char_of (0x9C::nat), char_of (0x93::nat)]"

definition ballot_x :: string where
  "ballot_x = [char_of (0xE2::nat), char_of (0x9C::nat), char_of (0x97::nat)]"

section \<open>What the handlers share\<close>

text \<open>The result of a tool call: text blocks, and \<^verbatim>\<open>isError\<close> when it is there.\<close>

datatype content = Text string

record toolResult =
  content :: "content list"
  isError :: "bool option"

definition textResult :: "string \<Rightarrow> toolResult" where
  "textResult t = \<lparr>content = [Text t], isError = None\<rparr>"

text \<open>\<^verbatim>\<open>error instanceof Error ? error.message : String(error)\<close>.\<close>

definition errorMessage :: "env \<Rightarrow> error \<Rightarrow> string" where
  "errorMessage env e = (case e of ZodError is \<Rightarrow> zodMessage env is | Error m \<Rightarrow> m)"

text \<open>The value of a string that is truthy.\<close>

definition nonempty :: "string option \<Rightarrow> string option" where
  "nonempty s = (if truthy s then s else None)"

text \<open>The generation config of the handlers that ask for an image (lines 426 to 434, and
  the same at 534, 722, 788 and 974), and of \<^verbatim>\<open>analyze_image\<close> (lines 642 to 647).\<close>

definition imageConfig :: "config option \<Rightarrow> generationConfig" where
  "imageConfig cfg = (case cfg of
       Some c \<Rightarrow> \<lparr>gc_temperature = temperature c, gc_topP = topP c, gc_topK = topK c,
                  gc_maxOutputTokens = maxOutputTokens c,
                  responseModalities = Some [''TEXT'', ''IMAGE'']\<rparr>
     | None \<Rightarrow> \<lparr>gc_temperature = None, gc_topP = None, gc_topK = None,
                 gc_maxOutputTokens = None,
                 responseModalities = Some [''TEXT'', ''IMAGE'']\<rparr>)"

definition analysisConfig :: "config option \<Rightarrow> generationConfig" where
  "analysisConfig cfg = (case cfg of
       Some c \<Rightarrow> \<lparr>gc_temperature = temperature c, gc_topP = topP c, gc_topK = topK c,
                  gc_maxOutputTokens = maxOutputTokens c, responseModalities = None\<rparr>
     | None \<Rightarrow> \<lparr>gc_temperature = None, gc_topP = None, gc_topK = None,
                 gc_maxOutputTokens = None, responseModalities = None\<rparr>)"

text \<open>\<^verbatim>\<open>'inlineData' in part\<close>.\<close>

fun hasInlineData :: "part \<Rightarrow> bool" where
  "hasInlineData (InlineDataPart d m) = True"
| "hasInlineData p = False"

text \<open>\<^verbatim>\<open>parts.find(part => 'inlineData' in part)\<close>, with the data and the MIME type of
  the part found.\<close>

definition findInlineData :: "part list \<Rightarrow> (string \<times> string) option" where
  "findInlineData ps = (case List.find hasInlineData ps of
       Some (InlineDataPart d m) \<Rightarrow> Some (d, m)
     | _ \<Rightarrow> None)"

text \<open>Lines 441 to 458 (and 549 to 566, 738 to 755, 989 to 1004): the image of a response,
  or the error thrown. The message for a response without candidates differs between
  the handlers.\<close>

definition extractImage :: "string \<Rightarrow> response \<Rightarrow> error + string \<times> string" where
  "extractImage noCandidates resp = (case resp of Response cands txt \<Rightarrow>
     (case cands of
        None \<Rightarrow> Inl (Error noCandidates)
      | Some [] \<Rightarrow> Inl (Error noCandidates)
      | Some (Candidate ps # cs) \<Rightarrow>
          (case ps of
             None \<Rightarrow> Inl (Error ''No content parts in the response'')
           | Some [] \<Rightarrow> Inl (Error ''No content parts in the response'')
           | Some (q # qs) \<Rightarrow>
               (case findInlineData (q # qs) of
                  None \<Rightarrow> Inl (Error ''No image data found in the response'')
                | Some im \<Rightarrow> Inr im))))"

text \<open>\<^verbatim>\<open>result.response.candidates?.[0]?.content.parts\<close>, when it is truthy (an empty
  array is).\<close>

definition firstParts :: "response \<Rightarrow> part list option" where
  "firstParts resp = (case resp of Response cands txt \<Rightarrow>
     (case cands of
        None \<Rightarrow> None
      | Some [] \<Rightarrow> None
      | Some (Candidate ps # cs) \<Rightarrow> ps))"

text \<open>Lines 461 to 463 (and 569 to 571, 758 to 760).\<close>

definition extension :: "string \<Rightarrow> string" where
  "extension mimeType = (if mimeType = ''image/png'' then ''.png''
     else if mimeType = ''image/jpeg'' then ''.jpg''
     else ''.png'')"

text \<open>Lines 468 to 472: the path is joined, the directory made, the file written. The
  path is returned when neither threw.\<close>

definition saveImage :: "env \<Rightarrow> string \<Rightarrow> string \<Rightarrow> string \<Rightarrow> event list \<Rightarrow> (error + string) \<times> event list" where
  "saveImage env outputDir filename imageData tr =
     (case fsMkdir env outputDir tr of
        (Some m, tr1) \<Rightarrow> (Inl (Error m), tr1)
      | (None, tr1) \<Rightarrow>
          (case fsWriteFile env (join env outputDir filename) imageData tr1 of
             (Some m, tr2) \<Rightarrow> (Inl (Error m), tr2)
           | (None, tr2) \<Rightarrow> (Inr (join env outputDir filename), tr2)))"

text \<open>Lines 503 to 520 (and 611 to 628, 691 to 708): the MIME type of a lower-cased
  extension.\<close>

definition mimeTypeOfExt :: "string \<Rightarrow> string" where
  "mimeTypeOfExt ext = (if ext = ''.png'' then ''image/png''
     else if ext = ''.jpg'' \<or> ext = ''.jpeg'' then ''image/jpeg''
     else if ext = ''.gif'' then ''image/gif''
     else if ext = ''.webp'' then ''image/webp''
     else ''image/png'')"

text \<open>Lines 494 to 523 (and 602 to 631): the image of an \<^verbatim>\<open>edit_image\<close> or
  \<^verbatim>\<open>analyze_image\<close> call, as data and MIME type.\<close>

definition resolveImage :: "env \<Rightarrow> string option \<Rightarrow> string option \<Rightarrow> event list \<Rightarrow> (error + string \<times> string) \<times> event list" where
  "resolveImage env imageData imagePath tr =
     (case nonempty imageData of
        Some d \<Rightarrow> (Inr (d, ''image/png''), tr)
      | None \<Rightarrow>
          (case nonempty imagePath of
             Some p \<Rightarrow>
               (case fsReadFile env p tr of
                  (Inl m, tr1) \<Rightarrow> (Inl (Error m), tr1)
                | (Inr d, tr1) \<Rightarrow> (Inr (d, mimeTypeOfExt (toLowerCase (extname env p))), tr1))
           | None \<Rightarrow> (Inl (Error ''Either imageData or imagePath must be provided''), tr)))"

text \<open>The calls that follow a resolved request in the handlers that write one image:
  call the model, take the image of the response, save it under the file name that
  \<open>name\<close> gives for the MIME type and the time stamp, and report the path with \<open>report\<close>.\<close>

definition generateAndSave ::
  "env \<Rightarrow> request \<Rightarrow> string \<Rightarrow> (string \<Rightarrow> string \<Rightarrow> string) \<Rightarrow> string \<Rightarrow> (string \<Rightarrow> string) \<Rightarrow> event list
    \<Rightarrow> (error + toolResult) \<times> event list" where
  "generateAndSave env req noCandidates name outputDir report tr =
     (case callModel env req tr of
        (Inl m, tr1) \<Rightarrow> (Inl (Error m), tr1)
      | (Inr resp, tr1) \<Rightarrow>
          (case extractImage noCandidates resp of
             Inl e \<Rightarrow> (Inl e, tr1)
           | Inr (imageData, mimeType) \<Rightarrow>
               (case saveImage env outputDir (name mimeType (timestamp env tr1)) imageData tr1 of
                  (Inl e, tr2) \<Rightarrow> (Inl e, tr2)
                | (Inr filepath, tr2) \<Rightarrow> (Inr (textResult (report filepath)), tr2))))"

section \<open>The handlers\<close>

text \<open>A destructuring default: \<^verbatim>\<open>{outputDir = "."}\<close>.\<close>

definition orDefault :: "'a option \<Rightarrow> 'a \<Rightarrow> 'a" where
  "orDefault v d = (case v of None \<Rightarrow> d | Some x \<Rightarrow> x)"

definition imageModel :: string where
  "imageModel = ''gemini-2.5-flash-image-preview''"

definition textModel :: string where
  "textModel = ''gemini-2.5-flash''"

text \<open>\<^verbatim>\<open>handleGenerateImage\<close>, lines 418 to 482.\<close>

definition handleGenerateImage :: "env \<Rightarrow> json option \<Rightarrow> event list \<Rightarrow> (error + toolResult) \<times> event list" where
  "handleGenerateImage env args tr =
     (case parse (GenerateImageArgsSchema args) of
        Inl e \<Rightarrow> (Inl e, tr)
      | Inr (prompt, outputDir, config) \<Rightarrow>
          generateAndSave env
            \<lparr>model = imageModel, parts = [TextPart prompt],
             generationConfig = Some (imageConfig config)\<rparr>
            ''No image was generated''
            (\<lambda>mimeType ts. ''generated-image-'' @ ts @ extension mimeType)
            (orDefault outputDir ''.'')
            (\<lambda>filepath. ''Image generated successfully and saved to: '' @ filepath)
            tr)"

text \<open>\<^verbatim>\<open>handleEditImage\<close>, lines 484 to 590.\<close>

definition handleEditImage :: "env \<Rightarrow> json option \<Rightarrow> event list \<Rightarrow> (error + toolResult) \<times> event list" where
  "handleEditImage env args tr =
     (case parse (EditImageArgsSchema args) of
        Inl e \<Rightarrow> (Inl e, tr)
      | Inr (prompt, imageData, imagePath, outputDir, config) \<Rightarrow>
          (case resolveImage env imageData imagePath tr of
             (Inl e, tr1) \<Rightarrow> (Inl e, tr1)
           | (Inr (finalImageData, mimeType), tr1) \<Rightarrow>
               generateAndSave env
                 \<lparr>model = imageModel,
                  parts = [TextPart prompt, InlineDataPart finalImageData mimeType],
                  generationConfig = Some (imageConfig config)\<rparr>
                 ''No edited image was generated''
                 (\<lambda>outputMimeType ts. ''edited-image-'' @ ts @ extension outputMimeType)
                 (orDefault outputDir ''.'')
                 (\<lambda>filepath. ''Image edited successfully and saved to: '' @ filepath)
                 tr1))"

text \<open>\<^verbatim>\<open>handleAnalyzeImage\<close>, lines 592 to 666. \<^verbatim>\<open>result.response.text\<close> is a method, so
  the test of line 654 never throws; \<^verbatim>\<open>text()\<close> itself may.\<close>

definition handleAnalyzeImage :: "env \<Rightarrow> json option \<Rightarrow> event list \<Rightarrow> (error + toolResult) \<times> event list" where
  "handleAnalyzeImage env args tr =
     (case parse (AnalyzeImageArgsSchema args) of
        Inl e \<Rightarrow> (Inl e, tr)
      | Inr (prompt, imageData, imagePath, config) \<Rightarrow>
          (case resolveImage env imageData imagePath tr of
             (Inl e, tr1) \<Rightarrow> (Inl e, tr1)
           | (Inr (finalImageData, mimeType), tr1) \<Rightarrow>
               (case callModel env
                   \<lparr>model = textModel,
                    parts = [TextPart prompt, InlineDataPart finalImageData mimeType],
                    generationConfig = Some (analysisConfig config)\<rparr> tr1 of
                  (Inl m, tr2) \<Rightarrow> (Inl (Error m), tr2)
                | (Inr (Response cands txt), tr2) \<Rightarrow>
                    (case txt of
                       Inl m \<Rightarrow> (Inl (Error m), tr2)
                     | Inr t \<Rightarrow> (Inr (textResult t), tr2)))))"

text \<open>The loop of lines 676 to 719: the image parts of \<^verbatim>\<open>images\<close> from index \<open>i\<close> on,
  appended to \<open>imageParts\<close>.\<close>

fun resolveImages :: "env \<Rightarrow> image list \<Rightarrow> nat \<Rightarrow> part list \<Rightarrow> event list \<Rightarrow> (error + part list) \<times> event list" where
  "resolveImages env [] i imageParts tr = (Inr imageParts, tr)"
| "resolveImages env (img # images) i imageParts tr =
     (case nonempty (fst img) of
        Some d \<Rightarrow> resolveImages env images (Suc i) (imageParts @ [InlineDataPart d ''image/png'']) tr
      | None \<Rightarrow>
          (case nonempty (fst (snd img)) of
             Some p \<Rightarrow>
               (case readFile env tr p of
                  Inl m \<Rightarrow> (Inl (Error m), tr @ [Read p (Inl m)])
                | Inr d \<Rightarrow>
                    resolveImages env images (Suc i)
                      (imageParts @ [InlineDataPart d (mimeTypeOfExt (toLowerCase (extname env p)))])
                      (tr @ [Read p (Inr d)]))
           | None \<Rightarrow>
               (Inl (Error (''Image '' @ showNat (i + 1) @ '' must have either imageData or imagePath'')), tr)))"

text \<open>\<^verbatim>\<open>handleMultiImageEdit\<close>, lines 668 to 779.\<close>

definition handleMultiImageEdit :: "env \<Rightarrow> json option \<Rightarrow> event list \<Rightarrow> (error + toolResult) \<times> event list" where
  "handleMultiImageEdit env args tr =
     (case parse (MultiImageEditArgsSchema args) of
        Inl e \<Rightarrow> (Inl e, tr)
      | Inr (prompt, images, outputDir, config) \<Rightarrow>
          (case resolveImages env images 0 [] tr of
             (Inl e, tr1) \<Rightarrow> (Inl e, tr1)
           | (Inr imageParts, tr1) \<Rightarrow>
               generateAndSave env
                 \<lparr>model = imageModel, parts = TextPart prompt # imageParts,
                  generationConfig = Some (imageConfig config)\<rparr>
                 ''No multi-image result was generated''
                 (\<lambda>outputMimeType ts. ''multi-image-result-'' @ ts @ extension outputMimeType)
                 (orDefault outputDir ''.'')
                 (\<lambda>filepath. ''Multi-image processing completed successfully and saved to: '' @ filepath)
                 tr1))"

subsection \<open>\<^verbatim>\<open>batch_generate\<close>\<close>

text \<open>An element of \<^verbatim>\<open>results\<close>: \<^verbatim>\<open>{success, prompt, filepath}\<close> or
  \<^verbatim>\<open>{success, prompt, error}\<close>.\<close>

datatype batchOutcome = BatchOutcome (o_success: bool) (o_prompt: string)
  (o_filepath: "string option") (o_error: "string option")

definition succeeded :: "string \<Rightarrow> string \<Rightarrow> batchOutcome" where
  "succeeded prompt filepath = BatchOutcome True prompt (Some filepath) None"

definition failed :: "string \<Rightarrow> string \<Rightarrow> batchOutcome" where
  "failed prompt err = BatchOutcome False prompt None (Some err)"

definition batchRequest :: "config option \<Rightarrow> string \<Rightarrow> request" where
  "batchRequest config prompt =
     \<lparr>model = imageModel, parts = [TextPart prompt], generationConfig = Some (imageConfig config)\<rparr>"

definition batchFilename :: "env \<Rightarrow> nat \<Rightarrow> event list \<Rightarrow> string" where
  "batchFilename env index tr = ''batch-'' @ showNat (index + 1) @ ''-'' @ timestamp env tr @ ''.png''"

text \<open>The body of the sequential loop, lines 832 to 859, for \<^verbatim>\<open>prompts[i]\<close>: what it
  appends to \<^verbatim>\<open>results\<close>.\<close>

definition sequentialItem ::
  "env \<Rightarrow> string \<Rightarrow> config option \<Rightarrow> nat \<Rightarrow> string \<Rightarrow> batchOutcome list \<Rightarrow> event list
    \<Rightarrow> batchOutcome list \<times> event list" where
  "sequentialItem env outputDir config i prompt results tr =
     (case callModel env (batchRequest config prompt) tr of
        (Inl m, tr1) \<Rightarrow> (results @ [failed prompt m], tr1)
      | (Inr resp, tr1) \<Rightarrow>
          (case firstParts resp of
             None \<Rightarrow> (results, tr1)
           | Some ps \<Rightarrow>
               (case findInlineData ps of
                  None \<Rightarrow> (results @ [failed prompt ''No image generated''], tr1)
                | Some (imageData, mimeType) \<Rightarrow>
                    (case saveImage env outputDir (batchFilename env i tr1) imageData tr1 of
                       (Inl e, tr2) \<Rightarrow> (results @ [failed prompt (errorMessage env e)], tr2)
                     | (Inr filepath, tr2) \<Rightarrow> (results @ [succeeded prompt filepath], tr2)))))"

text \<open>The loop of line 831.\<close>

function sequentialLoop ::
  "env \<Rightarrow> string \<Rightarrow> config option \<Rightarrow> string list \<Rightarrow> nat \<Rightarrow> batchOutcome list \<Rightarrow> event list
    \<Rightarrow> batchOutcome list \<times> event list" where
  "sequentialLoop env outputDir config prompts i results tr =
     (if i < length prompts
      then sequentialLoop env outputDir config prompts (Suc i)
             (fst (sequentialItem env outputDir config i (prompts ! i) results tr))
             (snd (sequentialItem env outputDir config i (prompts ! i) results tr))
      else (results, tr))"
  by pat_completeness auto
termination
  by (relation "measure (\<lambda>(env, outputDir, config, prompts, i, results, tr). length prompts - i)") auto

declare sequentialLoop.simps [simp del]

text \<open>The callback of line 802 from its reply on, lines 809 to 825: the value its promise
  is fulfilled with.\<close>

definition parallelItem ::
  "env \<Rightarrow> string \<Rightarrow> nat \<Rightarrow> string \<Rightarrow> (string + response) \<Rightarrow> event list \<Rightarrow> batchOutcome \<times> event list" where
  "parallelItem env outputDir index prompt reply tr =
     (case reply of
        Inl m \<Rightarrow> (failed prompt m, tr)
      | Inr resp \<Rightarrow>
          (case firstParts resp of
             None \<Rightarrow> (failed prompt ''No image generated'', tr)
           | Some ps \<Rightarrow>
               (case findInlineData ps of
                  None \<Rightarrow> (failed prompt ''No image generated'', tr)
                | Some (imageData, mimeType) \<Rightarrow>
                    (case saveImage env outputDir (batchFilename env index tr) imageData tr of
                       (Inl e, tr1) \<Rightarrow> (failed prompt (errorMessage env e), tr1)
                     | (Inr filepath, tr1) \<Rightarrow> (succeeded prompt filepath, tr1)))))"

text \<open>\<^verbatim>\<open>prompts.map(async ...)\<close> runs every callback up to its first \<^verbatim>\<open>await\<close>: the
  requests go out in the order of the prompts.\<close>

fun issueAll ::
  "env \<Rightarrow> config option \<Rightarrow> string list \<Rightarrow> nat \<Rightarrow> event list
    \<Rightarrow> (nat \<times> string \<times> (string + response)) list \<times> event list" where
  "issueAll env config [] index tr = ([], tr)"
| "issueAll env config (prompt # prompts) index tr =
     ((index, prompt, generateContent env tr (batchRequest config prompt))
        # fst (issueAll env config prompts (Suc index)
                 (tr @ [Call (batchRequest config prompt) (generateContent env tr (batchRequest config prompt))])),
      snd (issueAll env config prompts (Suc index)
                 (tr @ [Call (batchRequest config prompt) (generateContent env tr (batchRequest config prompt))])))"

text \<open>The callbacks then continue in the order their replies arrive in, which \<open>pick\<close>
  chooses; each continuation is taken as one step. \<^verbatim>\<open>Promise.all\<close> gives the values in
  the order of the promises: a value is filed under its index.\<close>

function settleAll ::
  "env \<Rightarrow> string \<Rightarrow> (nat \<times> string \<times> (string + response)) list \<Rightarrow> (nat \<times> batchOutcome) list
    \<Rightarrow> event list \<Rightarrow> (nat \<times> batchOutcome) list \<times> event list" where
  "settleAll env outputDir pending settled tr =
     (if pending = [] then (settled, tr)
      else settleAll env outputDir
             (take (pick env tr (map fst pending) mod length pending) pending
                @ drop (Suc (pick env tr (map fst pending) mod length pending)) pending)
             (insort_key fst
                (fst (pending ! (pick env tr (map fst pending) mod length pending)),
                 fst (parallelItem env outputDir
                        (fst (pending ! (pick env tr (map fst pending) mod length pending)))
                        (fst (snd (pending ! (pick env tr (map fst pending) mod length pending))))
                        (snd (snd (pending ! (pick env tr (map fst pending) mod length pending))))
                        tr))
                settled)
             (snd (parallelItem env outputDir
                     (fst (pending ! (pick env tr (map fst pending) mod length pending)))
                     (fst (snd (pending ! (pick env tr (map fst pending) mod length pending))))
                     (snd (snd (pending ! (pick env tr (map fst pending) mod length pending))))
                     tr)))"
  by pat_completeness auto
termination
proof (relation "measure (\<lambda>(env, outputDir, pending, settled, tr). length pending)", goal_cases)
  case 1
  show ?case by simp
next
  case (2 env outputDir pending settled tr)
  then have "pick env tr (map fst pending) mod length pending < length pending"
    by simp
  then show ?case
    by simp
qed

declare settleAll.simps [simp del]

text \<open>Lines 800 to 828.\<close>

definition parallelBatch ::
  "env \<Rightarrow> string \<Rightarrow> config option \<Rightarrow> string list \<Rightarrow> event list \<Rightarrow> batchOutcome list \<times> event list" where
  "parallelBatch env outputDir config prompts tr =
     (case issueAll env config prompts 0 tr of
        (pending, tr1) \<Rightarrow>
          (case settleAll env outputDir pending [] tr1 of
             (settled, tr2) \<Rightarrow> (map snd settled, tr2)))"

text \<open>A member that may be \<^verbatim>\<open>undefined\<close>, inside a template literal.\<close>

definition showOpt :: "string option \<Rightarrow> string" where
  "showOpt s = (case s of None \<Rightarrow> ''undefined'' | Some t \<Rightarrow> t)"

text \<open>Lines 863 to 872.\<close>

definition batchLine :: "batchOutcome \<Rightarrow> string" where
  "batchLine r = (if o_success r then check_mark @ '' '' @ showOpt (o_filepath r)
                  else ballot_x @ '' '' @ o_prompt r @ '': '' @ showOpt (o_error r))"

definition batchReport :: "batchOutcome list \<Rightarrow> string" where
  "batchReport results =
     ''Batch generation completed: '' @ showNat (length (filter o_success results))
       @ '' successful, '' @ showNat (length (filter (\<lambda>r. \<not> o_success r) results))
       @ '' failed'' @ [CHR 0x0A] @ joinWith [CHR 0x0A] (map batchLine results)"

text \<open>The outcomes that \<^verbatim>\<open>handleBatchGenerate\<close> collects in \<^verbatim>\<open>results\<close>, lines 798 to 861.\<close>

definition batchResults ::
  "env \<Rightarrow> string \<Rightarrow> config option \<Rightarrow> bool \<Rightarrow> string list \<Rightarrow> event list \<Rightarrow> batchOutcome list \<times> event list" where
  "batchResults env outputDir config parallel' prompts tr =
     (if parallel' then parallelBatch env outputDir config prompts tr
      else sequentialLoop env outputDir config prompts 0 [] tr)"

text \<open>\<^verbatim>\<open>handleBatchGenerate\<close>, lines 781 to 875.\<close>

definition handleBatchGenerate :: "env \<Rightarrow> json option \<Rightarrow> event list \<Rightarrow> (error + toolResult) \<times> event list" where
  "handleBatchGenerate env args tr =
     (case parse (BatchGenerateArgsSchema args) of
        Inl e \<Rightarrow> (Inl e, tr)
      | Inr (prompts, outputDir, config, parallel') \<Rightarrow>
          (case batchResults env (orDefault outputDir ''.'') config (orDefault parallel' False) prompts tr of
             (results, tr1) \<Rightarrow> (Inr (textResult (batchReport results)), tr1)))"

subsection \<open>\<^verbatim>\<open>generate_variations\<close>\<close>

text \<open>Lines 888 to 898: the base image.\<close>

definition resolveBaseImage :: "env \<Rightarrow> string option \<Rightarrow> string option \<Rightarrow> event list \<Rightarrow> (error + string \<times> string) \<times> event list" where
  "resolveBaseImage env imageData imagePath tr =
     (case nonempty imageData of
        Some d \<Rightarrow> (Inr (d, ''image/png''), tr)
      | None \<Rightarrow>
          (case nonempty imagePath of
             Some p \<Rightarrow>
               (case fsReadFile env p tr of
                  (Inl m, tr1) \<Rightarrow> (Inl (Error m), tr1)
                | (Inr d, tr1) \<Rightarrow>
                    (Inr (d, if toLowerCase (extname env p) = ''.jpg'' \<or> toLowerCase (extname env p) = ''.jpeg''
                             then ''image/jpeg'' else ''image/png''), tr1))
           | None \<Rightarrow> (Inl (Error ''Either imageData or imagePath must be provided''), tr)))"

text \<open>Lines 908 to 912.\<close>

definition variationPrompts :: "variationStrength \<Rightarrow> string" where
  "variationPrompts s = (case s of
       subtle \<Rightarrow> ''Create a very similar variation of this image with minimal changes, keeping the same style and composition''
     | moderate \<Rightarrow> ''Create a variation of this image with moderate changes while maintaining the core concept and style''
     | strong \<Rightarrow> ''Create a significantly different variation of this image, exploring new interpretations while keeping the main subject'')"

text \<open>The ternary of lines 916 and 922.\<close>

definition strengthTemperature :: "variationStrength \<Rightarrow> rat" where
  "strengthTemperature s = (if s = subtle then 3 / 10 else if s = moderate then 7 / 10 else 12 / 10)"

text \<open>Lines 915 to 924; \<^verbatim>\<open>??\<close> takes its right side when the left is \<^verbatim>\<open>undefined\<close>.\<close>

definition variationConfig :: "config option \<Rightarrow> variationStrength \<Rightarrow> generationConfig" where
  "variationConfig cfg variationStrength = (case cfg of
       Some c \<Rightarrow>
         \<lparr>gc_temperature = (case temperature c of
                               Some t \<Rightarrow> Some t
                             | None \<Rightarrow> Some (strengthTemperature variationStrength)),
          gc_topP = topP c, gc_topK = topK c, gc_maxOutputTokens = maxOutputTokens c,
          responseModalities = Some [''TEXT'', ''IMAGE'']\<rparr>
     | None \<Rightarrow>
         \<lparr>gc_temperature = Some (strengthTemperature variationStrength),
          gc_topP = None, gc_topK = None, gc_maxOutputTokens = None,
          responseModalities = Some [''TEXT'', ''IMAGE'']\<rparr>)"

definition variationRequest :: "env \<Rightarrow> string \<Rightarrow> part \<Rightarrow> generationConfig \<Rightarrow> rat \<Rightarrow> nat \<Rightarrow> request" where
  "variationRequest env basePrompt imagePart gc count i =
     \<lparr>model = imageModel,
      parts = [TextPart (basePrompt @ '' (variation '' @ showNat (i + 1) @ '' of ''
                 @ numberToString env count @ '')''), imagePart],
      generationConfig = Some gc\<rparr>"

definition variationFilename :: "env \<Rightarrow> nat \<Rightarrow> event list \<Rightarrow> string" where
  "variationFilename env i tr = ''variation-'' @ showNat (i + 1) @ ''-'' @ timestamp env tr @ ''.png''"

text \<open>The body of the loop, lines 929 to 950: what it appends to \<^verbatim>\<open>results\<close>. The
  \<^verbatim>\<open>catch\<close> writes to the error console and goes on.\<close>

definition variationStep ::
  "env \<Rightarrow> string \<Rightarrow> part \<Rightarrow> generationConfig \<Rightarrow> string \<Rightarrow> rat \<Rightarrow> nat \<Rightarrow> string list \<Rightarrow> event list
    \<Rightarrow> string list \<times> event list" where
  "variationStep env basePrompt imagePart gc outputDir count i results tr =
     (case callModel env (variationRequest env basePrompt imagePart gc count i) tr of
        (Inl m, tr1) \<Rightarrow> (results, tr1)
      | (Inr resp, tr1) \<Rightarrow>
          (case firstParts resp of
             None \<Rightarrow> (results, tr1)
           | Some ps \<Rightarrow>
               (case findInlineData ps of
                  None \<Rightarrow> (results, tr1)
                | Some (imageData, mimeType) \<Rightarrow>
                    (case saveImage env outputDir (variationFilename env i tr1) imageData tr1 of
                       (Inl e, tr2) \<Rightarrow> (results, tr2)
                     | (Inr filepath, tr2) \<Rightarrow> (results @ [filepath], tr2)))))"

text \<open>The loop of line 928; \<^verbatim>\<open>count\<close> is a number, \<open>i\<close> counts up from 0.\<close>

function variationLoop ::
  "env \<Rightarrow> string \<Rightarrow> part \<Rightarrow> generationConfig \<Rightarrow> string \<Rightarrow> rat \<Rightarrow> nat \<Rightarrow> string list \<Rightarrow> event list
    \<Rightarrow> string list \<times> event list" where
  "variationLoop env basePrompt imagePart gc outputDir count i results tr =
     (if of_nat i < count
      then variationLoop env basePrompt imagePart gc outputDir count (Suc i)
             (fst (variationStep env basePrompt imagePart gc outputDir count i results tr))
             (snd (variationStep env basePrompt imagePart gc outputDir count i results tr))
      else (results, tr))"
  by pat_completeness auto
termination
proof (relation "measure (\<lambda>(env, basePrompt, imagePart, gc, outputDir, count, i, results, tr).
    nat \<lceil>count\<rceil> - i)", goal_cases)
  case 1
  show ?case by simp
next
  case (2 env basePrompt imagePart gc outputDir count i results tr)
  then have "int i < \<lceil>count\<rceil>"
    by (simp add: less_ceiling_iff)
  then show ?case
    by simp
qed

declare variationLoop.simps [simp del]

text \<open>Line 957.\<close>

definition variationReport :: "string list \<Rightarrow> string" where
  "variationReport results =
     ''Generated '' @ showNat (length results) @ '' variations:'' @ [CHR 0x0A]
       @ joinWith [CHR 0x0A] (map (\<lambda>f. ''- '' @ f) results)"

text \<open>\<^verbatim>\<open>handleGenerateVariations\<close>, lines 877 to 961.\<close>

definition handleGenerateVariations :: "env \<Rightarrow> json option \<Rightarrow> event list \<Rightarrow> (error + toolResult) \<times> event list" where
  "handleGenerateVariations env args tr =
     (case parse (GenerateVariationsArgsSchema args) of
        Inl e \<Rightarrow> (Inl e, tr)
      | Inr (imagePath, imageData, count, variationStrength, outputDir, config) \<Rightarrow>
          (case resolveBaseImage env imageData imagePath tr of
             (Inl e, tr1) \<Rightarrow> (Inl e, tr1)
           | (Inr (finalImageData, mimeType), tr1) \<Rightarrow>
               (case variationLoop env (variationPrompts variationStrength)
                       (InlineDataPart finalImageData mimeType)
                       (variationConfig config variationStrength)
                       (orDefault outputDir ''.'') count 0 [] tr1 of
                  (results, tr2) \<Rightarrow> (Inr (textResult (variationReport results)), tr2))))"

subsection \<open>\<^verbatim>\<open>generate_with_template\<close> and \<^verbatim>\<open>compare_images\<close>\<close>

text \<open>\<^verbatim>\<open>handleGenerateWithTemplate\<close>, lines 963 to 1020.\<close>

definition handleGenerateWithTemplate :: "env \<Rightarrow> json option \<Rightarrow> event list \<Rightarrow> (error + toolResult) \<times> event list" where
  "handleGenerateWithTemplate env args tr =
     (case parse (PromptTemplateArgsSchema args) of
        Inl e \<Rightarrow> (Inl e, tr)
      | Inr (template, customization, outputDir, config) \<Rightarrow>
          generateAndSave env
            \<lparr>model = imageModel,
             parts = [TextPart (promptTemplates template @ ''. '' @ customization)],
             generationConfig = Some (imageConfig config)\<rparr>
            ''No image was generated''
            (\<lambda>mimeType ts. templateName template @ ''-'' @ ts @ ''.png'')
            (orDefault outputDir ''.'')
            (\<lambda>filepath. ''Generated '' @ templateName template @ '' style image: '' @ filepath
               @ [CHR 0x0A] @ ''Prompt used: '' @ promptTemplates template @ ''. '' @ customization)
            tr)"

text \<open>Lines 1047 to 1058.\<close>

definition comparePrompt :: "compareType \<Rightarrow> string" where
  "comparePrompt c = (case c of
       differences \<Rightarrow> ''Compare these two images and describe all the differences between them in detail.''
     | similarities \<Rightarrow> ''Compare these two images and describe all the similarities between them in detail.''
     | both \<Rightarrow> ''Compare these two images. First, describe their similarities, then describe their differences. Be thorough and detailed.'')"

text \<open>\<^verbatim>\<open>handleCompareImages\<close>, lines 1022 to 1076. The request has no generation config.\<close>

definition handleCompareImages :: "env \<Rightarrow> json option \<Rightarrow> event list \<Rightarrow> (error + toolResult) \<times> event list" where
  "handleCompareImages env args tr =
     (case parse (CompareImagesArgsSchema args) of
        Inl e \<Rightarrow> (Inl e, tr)
      | Inr (image1Path, image2Path, compareType) \<Rightarrow>
          (case fsReadFile env image1Path tr of
             (Inl m, tr1) \<Rightarrow> (Inl (Error m), tr1)
           | (Inr image1, tr1) \<Rightarrow>
               (case fsReadFile env image2Path tr1 of
                  (Inl m, tr2) \<Rightarrow> (Inl (Error m), tr2)
                | (Inr image2, tr2) \<Rightarrow>
                    (case callModel env
                        \<lparr>model = textModel,
                         parts = [TextPart (comparePrompt (orDefault compareType both)),
                                  InlineDataPart image1 ''image/png'',
                                  InlineDataPart image2 ''image/png''],
                         generationConfig = None\<rparr> tr2 of
                       (Inl m, tr3) \<Rightarrow> (Inl (Error m), tr3)
                     | (Inr (Response cands txt), tr3) \<Rightarrow>
                         (case txt of
                            Inl m \<Rightarrow> (Inl (Error m), tr3)
                          | Inr t \<Rightarrow>
                              (Inr (textResult (''Image Comparison ('' @ compareTypeName (orDefault compareType both)
                                  @ ''):'' @ [CHR 0x0A, CHR 0x0A] @ t)), tr3))))))"

section \<open>The dispatcher\<close>

text \<open>The \<^verbatim>\<open>switch\<close> of lines 383 to 402.\<close>

definition toolNames :: "string list" where
  "toolNames = [''generate_image'', ''edit_image'', ''analyze_image'', ''multi_image_edit'',
     ''batch_generate'', ''generate_variations'', ''generate_with_template'', ''compare_images'']"

definition dispatch :: "env \<Rightarrow> string \<Rightarrow> json option \<Rightarrow> event list \<Rightarrow> (error + toolResult) \<times> event list" where
  "dispatch env name args tr =
     (if name = ''generate_image'' then handleGenerateImage env args tr
      else if name = ''edit_image'' then handleEditImage env args tr
      else if name = ''analyze_image'' then handleAnalyzeImage env args tr
      else if name = ''multi_image_edit'' then handleMultiImageEdit env args tr
      else if name = ''batch_generate'' then handleBatchGenerate env args tr
      else if name = ''generate_variations'' then handleGenerateVariations env args tr
      else if name = ''generate_with_template'' then handleGenerateWithTemplate env args tr
      else if name = ''compare_images'' then handleCompareImages env args tr
      else (Inl (Error (''Unknown tool: '' @ name)), tr))"

text \<open>The request handler of lines 379 to 415: what the \<^verbatim>\<open>try\<close> returns, or the
  error result of the \<^verbatim>\<open>catch\<close>.\<close>

definition errorResult :: "env \<Rightarrow> error \<Rightarrow> toolResult" where
  "errorResult env e = \<lparr>content = [Text (''Error: '' @ errorMessage env e)], isError = Some True\<rparr>"

definition callTool :: "env \<Rightarrow> string \<Rightarrow> json option \<Rightarrow> event list \<Rightarrow> toolResult \<times> event list" where
  "callTool env name args tr =
     (case dispatch env name args tr of
        (Inr res, tr1) \<Rightarrow> (res, tr1)
      | (Inl e, tr1) \<Rightarrow> (errorResult env e, tr1))"

section \<open>An environment for the examples\<close>

text \<open>The number of calls to the model in a log.\<close>

fun isCall :: "event \<Rightarrow> bool" where
  "isCall (Call req r) = True"
| "isCall e = False"

definition ncalls :: "event list \<Rightarrow> nat" where
  "ncalls tr = length (filter isCall tr)"

text \<open>The text from the last dot of a path on; it is what \<^verbatim>\<open>path.extname\<close> gives for a
  file name such as \<^verbatim>\<open>photo.gif\<close>, with one dot that is not its first character.\<close>

definition lastDotSuffix :: "string \<Rightarrow> string" where
  "lastDotSuffix p = (if CHR ''.'' \<in> set p
     then CHR ''.'' # rev (takeWhile (\<lambda>c. c \<noteq> CHR ''.'') (rev p)) else [])"

text \<open>
  A world where the \<open>n\<close>-th call to the model gets the \<open>n\<close>-th of the given replies (and
  throws once they are used up), every file reads as \<^verbatim>\<open>QUJD\<close>, directories and files
  can be written, the clock stands still, a file name is joined to a directory with a
  slash (and left as it is under \<^verbatim>\<open>.\<close>), and the promises of a parallel batch
  settle last first.
\<close>

definition scripted :: "(string + response) list \<Rightarrow> env" where
  "scripted replies =
     \<lparr>generateContent = (\<lambda>tr req. if ncalls tr < length replies then replies ! ncalls tr
                                   else Inl ''fetch failed''),
      readFile = (\<lambda>tr p. Inr ''QUJD''),
      mkdir = (\<lambda>tr d. None),
      writeFile = (\<lambda>tr p d. None),
      toISOString = (\<lambda>tr. ''2025-01-02T03:04:05.678Z''),
      join = (\<lambda>d f. if d = ''.'' then f else d @ ''/'' @ f),
      extname = lastDotSuffix,
      numberToString = (\<lambda>x. showNat (nat \<lfloor>x\<rfloor>)),
      zodMessage = (\<lambda>is. ''invalid arguments''),
      pick = (\<lambda>tr pending. length pending - 1)\<rparr>"

text \<open>A response with one candidate that holds one image of the given MIME type, and a
  response without candidates, as the service gives for a prompt it blocks.\<close>

definition imageResponse :: "string \<Rightarrow> response" where
  "imageResponse mimeType = Response (Some [Candidate (Some [InlineDataPart ''QUJD'' mimeType])]) (Inr [])"

definition blockedResponse :: response where
  "blockedResponse = Response None (Inl ''Response was blocked'')"

section \<open>What the properties speak about\<close>

text \<open>The files a log shows as written: the paths of the writes that did not throw.\<close>

fun savedPath :: "event \<Rightarrow> string list" where
  "savedPath (Write p d None) = [p]"
| "savedPath e = []"

definition saved :: "event list \<Rightarrow> string list" where
  "saved tr = concat (map savedPath tr)"

text \<open>The requests a log shows as sent to the model.\<close>

fun requestOf :: "event \<Rightarrow> request list" where
  "requestOf (Call req r) = [req]"
| "requestOf e = []"

definition requests :: "event list \<Rightarrow> request list" where
  "requests tr = concat (map requestOf tr)"

text \<open>The text of a result.\<close>

definition resultText :: "toolResult \<Rightarrow> string" where
  "resultText res = concat (map (\<lambda>c. case c of Text t \<Rightarrow> t) (content res))"

text \<open>The temperature a request carries.\<close>

definition requestTemperature :: "request \<Rightarrow> rat option" where
  "requestTemperature req = (case generationConfig req of None \<Rightarrow> None | Some gc \<Rightarrow> gc_temperature gc)"

text \<open>The temperature a caller's config gives, if the caller gave a config and a
  temperature in it.\<close>

definition callerTemperature :: "config option \<Rightarrow> rat option" where
  "callerTemperature cfg = (case cfg of None \<Rightarrow> None | Some c \<Rightarrow> temperature c)"

text \<open>A member of an object that is absent, or a number with the property \<open>P\<close>.\<close>

definition numField :: "(string \<times> json) list \<Rightarrow> string \<Rightarrow> (rat \<Rightarrow> bool) \<Rightarrow> bool" where
  "numField kvs k P = (case member kvs k of
       None \<Rightarrow> True
     | Some (JNum x) \<Rightarrow> P x
     | Some j \<Rightarrow> False)"

text \<open>An object that has neither \<^verbatim>\<open>imageData\<close> nor \<^verbatim>\<open>imagePath\<close>.\<close>

definition noImageRef :: "(string \<times> json) list \<Rightarrow> bool" where
  "noImageRef kvs = (member kvs ''imageData'' = None \<and> member kvs ''imagePath'' = None)"

fun isBareImage :: "json \<Rightarrow> bool" where
  "isBareImage (JObj kvs) = noImageRef kvs"
| "isBareImage j = False"

text \<open>A call of a tool that takes \<^verbatim>\<open>imageData\<close> or \<^verbatim>\<open>imagePath\<close> and is given neither
  and, for \<^verbatim>\<open>multi_image_edit\<close>, a call with an element of \<^verbatim>\<open>images\<close> that has
  neither.\<close>

definition missingImage :: "string \<Rightarrow> json option \<Rightarrow> bool" where
  "missingImage name args = (case args of
       Some (JObj kvs) \<Rightarrow>
         (if name = ''edit_image'' \<or> name = ''analyze_image'' \<or> name = ''generate_variations''
          then noImageRef kvs
          else if name = ''multi_image_edit''
          then (case member kvs ''images'' of
                  Some (JArr imgs) \<Rightarrow> list_ex isBareImage imgs
                | _ \<Rightarrow> False)
          else False)
     | _ \<Rightarrow> False)"

text \<open>The paths of the outcomes of a batch that succeeded.\<close>

definition successPaths :: "batchOutcome list \<Rightarrow> string list" where
  "successPaths results = concat (map (\<lambda>r. if o_success r then [showOpt (o_filepath r)] else []) results)"

text \<open>Settled outcomes, filed under their indices, that carry the prompts \<open>P\<close> gives
  for the indices.\<close>

definition tagged :: "(nat \<Rightarrow> string) \<Rightarrow> (nat \<times> batchOutcome) list \<Rightarrow> bool" where
  "tagged P settled = list_all (\<lambda>e. o_prompt (snd e) = P (fst e)) settled"

text \<open>
  The log of one pass of the loop of \<^verbatim>\<open>generate_variations\<close>. \<open>savesOf\<close> is the log of
  saving one file under the path \<open>p\<close>: nothing, a \<^verbatim>\<open>mkdir\<close> that threw, or a
  \<^verbatim>\<open>mkdir\<close> and the write to \<open>p\<close>. \<open>attemptLog\<close> is the log of attempt \<open>i\<close> made
  after the log \<open>pre\<close>: the request \<open>req\<close> with the reply the service gives after
  \<open>pre\<close>, then at most the saving of the file of this attempt.
\<close>

fun savesOf :: "string \<Rightarrow> string \<Rightarrow> event list \<Rightarrow> bool" where
  "savesOf outputDir p [] = True"
| "savesOf outputDir p [Mkdir d (Some m)] = (d = outputDir)"
| "savesOf outputDir p [Mkdir d None, Write q x r] = (d = outputDir \<and> q = p)"
| "savesOf outputDir p es = False"

definition attemptLog :: "env \<Rightarrow> string \<Rightarrow> request \<Rightarrow> nat \<Rightarrow> event list \<Rightarrow> event list \<Rightarrow> bool" where
  "attemptLog env outputDir req i pre seg = (case seg of
       Call rq r # fs \<Rightarrow>
         rq = req \<and> r = generateContent env pre req \<and>
         savesOf outputDir (join env outputDir (variationFilename env i (pre @ [Call rq r]))) fs
     | _ \<Rightarrow> False)"

section \<open>Argument validation\<close>

lemma accepts_ap: "accepts (ap pf px) \<longleftrightarrow> accepts pf \<and> accepts px"
  by (cases pf; cases px) (auto simp: accepts_def parse_def ap_def split: list.splits option.splits)

lemma accepts_ok: "accepts (ok x)"
  by (simp add: accepts_def parse_def ok_def)

lemma accepts_optional_number:
  "accepts (z_optional (z_number lo hi) p (member kvs k)) \<longleftrightarrow>
   numField kvs k (\<lambda>x. (case lo of None \<Rightarrow> True | Some l \<Rightarrow> l \<le> x) \<and>
                        (case hi of None \<Rightarrow> True | Some h \<Rightarrow> x \<le> h))"
  by (auto simp: accepts_def parse_def z_optional_def z_number_def numField_def
      split: option.splits json.splits list.splits if_splits)

text \<open>
  Claim C9, as the schema of lines 16 to 21 has it: a config object is accepted exactly
  when \<^verbatim>\<open>temperature\<close>, if present, is a number in \<open>[0, 2]\<close>, \<^verbatim>\<open>topP\<close>, if
  present, a number in \<open>[0, 1]\<close>, \<^verbatim>\<open>topK\<close>, if present, a number in \<open>[1, 40]\<close>, and
  \<^verbatim>\<open>maxOutputTokens\<close>, if present, a number. No sign and no integrality is asked of
  \<^verbatim>\<open>maxOutputTokens\<close>.
\<close>

theorem GenerationConfigSchema_accepts_iff:
  "accepts (GenerationConfigSchema p (Some (JObj kvs))) \<longleftrightarrow>
     numField kvs ''temperature'' (\<lambda>x. 0 \<le> x \<and> x \<le> 2) \<and>
     numField kvs ''topP'' (\<lambda>x. 0 \<le> x \<and> x \<le> 1) \<and>
     numField kvs ''topK'' (\<lambda>x. 1 \<le> x \<and> x \<le> 40) \<and>
     numField kvs ''maxOutputTokens'' (\<lambda>x. True)"
  by (simp add: GenerationConfigSchema_def accepts_ap accepts_ok accepts_optional_number)

text \<open>The equivalence at two configs: one within the ranges, with a fractional
  \<^verbatim>\<open>maxOutputTokens\<close>, and one with \<^verbatim>\<open>topP\<close> above 1.\<close>

theorem GenerationConfigSchema_accepts_iff_witness:
  "accepts (GenerationConfigSchema [] (Some (JObj
      [(''temperature'', JNum 2), (''topK'', JNum 1), (''maxOutputTokens'', JNum (1 / 2))])))
   \<and> \<not> accepts (GenerationConfigSchema [] (Some (JObj [(''topP'', JNum (3 / 2))])))"
  using GenerationConfigSchema_accepts_iff [of "[]"
      "[(''temperature'', JNum 2), (''topK'', JNum 1), (''maxOutputTokens'', JNum (1 / 2))]"]
    GenerationConfigSchema_accepts_iff [of "[]" "[(''topP'', JNum (3 / 2))]"]
  by (simp add: numField_def member_def)

text \<open>Claim C9 as it was stated asks for a positive integer: the config
  \<^verbatim>\<open>{maxOutputTokens: -1}\<close> is accepted all the same.\<close>

theorem negative_maxOutputTokens_accepted:
  "accepts (GenerationConfigSchema [Key ''config''] (Some (JObj [(''maxOutputTokens'', JNum (- 1))])))"
  by code_simp

section \<open>The dispatcher and unknown tools\<close>

text \<open>
  Claim C10: a call whose name is none of the eight tool names gets the error result with
  the one text block \<^verbatim>\<open>Error: Unknown tool: {name}\<close> and \<^verbatim>\<open>isError: true\<close>, and
  nothing is done to the outside world.
\<close>

theorem unknown_tool:
  "name \<notin> set toolNames \<Longrightarrow>
   callTool env name args tr =
     (\<lparr>content = [Text (''Error: Unknown tool: '' @ name)], isError = Some True\<rparr>, tr)"
  by (simp add: toolNames_def callTool_def dispatch_def errorResult_def errorMessage_def)

theorem unknown_tool_witness:
  "''resize_image'' \<notin> set toolNames \<and>
   callTool (scripted []) ''resize_image'' None [] =
     (\<lparr>content = [Text ''Error: Unknown tool: resize_image''], isError = Some True\<rparr>, [])"
proof -
  have h: "''resize_image'' \<notin> set toolNames"
    by (simp add: toolNames_def)
  show ?thesis
    using h unknown_tool [OF h, of "scripted []" None "[]"] by simp
qed

section \<open>Validation comes first\<close>

lemma parse_Inl: "parse r = Inl e \<Longrightarrow> \<exists>is. e = ZodError is"
  by (cases r) (auto simp: parse_def split: list.splits option.splits)

lemma parse_Inr_iff: "parse r = Inr x \<longleftrightarrow> fst r = [] \<and> snd r = Some x"
  by (cases r) (auto simp: parse_def split: list.splits option.splits)

lemma parse_ok [simp]: "parse (ok x) = Inr x"
  by (simp add: parse_def ok_def)

lemma parse_ap_Inr:
  "parse (ap pf px) = Inr y \<longleftrightarrow> (\<exists>f x. parse pf = Inr f \<and> parse px = Inr x \<and> y = f x)"
  by (cases pf; cases px) (auto simp: parse_def ap_def split: list.splits option.splits)

lemma parse_refine_Inr:
  "parse (z_refine check msg p r) = Inr x \<longleftrightarrow> parse r = Inr x \<and> check x"
  by (cases r) (auto simp: parse_def z_refine_def split: list.splits option.splits)

lemma parse_optional_absent [simp]: "parse (z_optional f p None) = Inr None"
  by (simp add: parse_def z_optional_def)

lemma rejected_cases:
  assumes "\<And>x. parse r = Inr x \<Longrightarrow> False"
  shows "\<exists>is. parse r = Inl (ZodError is)"
proof (cases "parse r")
  case (Inl e)
  then show ?thesis using parse_Inl by blast
next
  case (Inr x)
  then show ?thesis using assms by blast
qed

lemma EditImageArgs_noImageRef:
  "noImageRef kvs \<Longrightarrow> \<exists>is. parse (EditImageArgsSchema (Some (JObj kvs))) = Inl (ZodError is)"
  by (rule rejected_cases)
    (auto simp: EditImageArgsSchema_def parse_refine_Inr parse_ap_Inr noImageRef_def truthy_def)

lemma AnalyzeImageArgs_noImageRef:
  "noImageRef kvs \<Longrightarrow> \<exists>is. parse (AnalyzeImageArgsSchema (Some (JObj kvs))) = Inl (ZodError is)"
  by (rule rejected_cases)
    (auto simp: AnalyzeImageArgsSchema_def parse_refine_Inr parse_ap_Inr noImageRef_def truthy_def)

lemma GenerateVariationsArgs_noImageRef:
  "noImageRef kvs \<Longrightarrow> \<exists>is. parse (GenerateVariationsArgsSchema (Some (JObj kvs))) = Inl (ZodError is)"
  by (rule rejected_cases)
    (auto simp: GenerateVariationsArgsSchema_def parse_refine_Inr parse_ap_Inr noImageRef_def truthy_def)

lemma GenerateVariationsArgs_image:
  "parse (GenerateVariationsArgsSchema args) = Inr (imagePath, imageData, count, variationStrength, outputDir, config)
   \<Longrightarrow> truthy imageData \<or> truthy imagePath"
  by (simp add: GenerateVariationsArgsSchema_def parse_refine_Inr)

lemma ImageSchema_bare:
  "isBareImage j \<Longrightarrow> snd (ImageSchema q (Some j)) = Some img \<Longrightarrow> \<not> truthy (fst img) \<and> \<not> truthy (fst (snd img))"
  by (cases j) (auto simp: ImageSchema_def ap_def ok_def z_optional_def noImageRef_def truthy_def split: option.splits)

lemma z_elems_bare:
  "list_ex isBareImage imgs \<Longrightarrow> snd (z_elems ImageSchema p i imgs) = Some images \<Longrightarrow>
   \<not> list_all (\<lambda>(imageData, imagePath, description). truthy imageData \<or> truthy imagePath) images"
proof (induction imgs arbitrary: i images)
  case Nil
  then show ?case by simp
next
  case (Cons j imgs)
  from Cons.prems(2) obtain y ys where
    y: "snd (ImageSchema (p @ [Idx i]) (Some j)) = Some y" and
    ys: "snd (z_elems ImageSchema p (Suc i) imgs) = Some ys" and
    im: "images = y # ys"
    by (auto split: option.splits)
  show ?case
  proof (cases "isBareImage j")
    case True
    from ImageSchema_bare [OF True y] show ?thesis
      by (simp add: im case_prod_beta)
  next
    case False
    with Cons.prems(1) have "list_ex isBareImage imgs" by simp
    from Cons.IH [OF this ys] show ?thesis by (simp add: im)
  qed
qed

lemma MultiImageEditArgs_bare:
  assumes "member kvs ''images'' = Some (JArr imgs)" and "list_ex isBareImage imgs"
  shows "\<exists>is. parse (MultiImageEditArgsSchema (Some (JObj kvs))) = Inl (ZodError is)"
proof (rule rejected_cases)
  fix x
  assume "parse (MultiImageEditArgsSchema (Some (JObj kvs))) = Inr x"
  then obtain prompt images outputDir config where
    a: "parse (z_array_min1 ImageSchema [Key ''images''] (Some (JArr imgs))) = Inr images" and
    b: "list_all (\<lambda>(imageData, imagePath, description). truthy imageData \<or> truthy imagePath) images"
    using assms(1)
    by (auto simp: MultiImageEditArgsSchema_def parse_refine_Inr parse_ap_Inr)
  from a have "snd (z_elems ImageSchema [Key ''images''] 0 imgs) = Some images"
    by (simp add: parse_Inr_iff z_array_min1_def)
  from z_elems_bare [OF assms(2) this] b show False by simp
qed

text \<open>
  Claim C5: a call of \<^verbatim>\<open>edit_image\<close>, \<^verbatim>\<open>analyze_image\<close> or
  \<^verbatim>\<open>generate_variations\<close> with neither \<^verbatim>\<open>imageData\<close> nor \<^verbatim>\<open>imagePath\<close>, and a call of
  \<^verbatim>\<open>multi_image_edit\<close> with an element of \<^verbatim>\<open>images\<close> that has neither, fails with
  the validation error of its schema, and the log of file reads, directory creations,
  file writes and model calls is as it was before the call.
\<close>

theorem missing_image_fails_validation:
  assumes "missingImage name args"
  shows "\<exists>is. dispatch env name args tr = (Inl (ZodError is), tr) \<and>
              callTool env name args tr = (errorResult env (ZodError is), tr)"
proof -
  from assms obtain kvs where args: "args = Some (JObj kvs)"
    by (auto simp: missingImage_def split: option.splits json.splits)
  have "\<exists>is. dispatch env name args tr = (Inl (ZodError is), tr)"
  proof -
    consider (edit) "name = ''edit_image''" "noImageRef kvs"
      | (analyze) "name = ''analyze_image''" "noImageRef kvs"
      | (variations) "name = ''generate_variations''" "noImageRef kvs"
      | (multi) imgs where "name = ''multi_image_edit''" "member kvs ''images'' = Some (JArr imgs)"
          "list_ex isBareImage imgs"
      using assms unfolding args missingImage_def
      by (auto split: if_splits option.splits json.splits)
    then show ?thesis
    proof cases
      case edit
      from EditImageArgs_noImageRef [OF edit(2)] show ?thesis
        by (auto simp: dispatch_def handleEditImage_def args edit(1))
    next
      case analyze
      from AnalyzeImageArgs_noImageRef [OF analyze(2)] show ?thesis
        by (auto simp: dispatch_def handleAnalyzeImage_def args analyze(1))
    next
      case variations
      from GenerateVariationsArgs_noImageRef [OF variations(2)] show ?thesis
        by (auto simp: dispatch_def handleGenerateVariations_def args variations(1))
    next
      case multi
      from MultiImageEditArgs_bare [OF multi(2,3)] show ?thesis
        by (auto simp: dispatch_def handleMultiImageEdit_def args multi(1))
    qed
  qed
  then show ?thesis
    by (auto simp: callTool_def)
qed

text \<open>A \<^verbatim>\<open>multi_image_edit\<close> call whose second image has a description only: nothing is
  read, although the first image names a file.\<close>

theorem missing_image_fails_validation_witness:
  "missingImage ''multi_image_edit''
     (Some (JObj [(''prompt'', JStr ''blend''),
        (''images'', JArr [JObj [(''imagePath'', JStr ''a.png'')], JObj [(''description'', JStr ''mask'')]])]))
   \<and> snd (callTool (scripted []) ''multi_image_edit''
     (Some (JObj [(''prompt'', JStr ''blend''),
        (''images'', JArr [JObj [(''imagePath'', JStr ''a.png'')], JObj [(''description'', JStr ''mask'')]])])) []) = []
   \<and> isError (fst (callTool (scripted []) ''multi_image_edit''
     (Some (JObj [(''prompt'', JStr ''blend''),
        (''images'', JArr [JObj [(''imagePath'', JStr ''a.png'')], JObj [(''description'', JStr ''mask'')]])])) []))
       = Some True"
proof -
  have h: "missingImage ''multi_image_edit''
     (Some (JObj [(''prompt'', JStr ''blend''),
        (''images'', JArr [JObj [(''imagePath'', JStr ''a.png'')], JObj [(''description'', JStr ''mask'')]])]))"
    by code_simp
  show ?thesis
    using h missing_image_fails_validation [OF h, of "scripted []" "[]"]
    by (auto simp: errorResult_def)
qed

text \<open>
  Claim C8, as the code has it: \<^verbatim>\<open>GenerateVariationsArgsSchema\<close> ends in the same
  \<^verbatim>\<open>refine\<close> as the schemas of \<^verbatim>\<open>edit_image\<close> and \<^verbatim>\<open>analyze_image\<close>, so a call of
  \<^verbatim>\<open>generate_variations\<close> with neither \<^verbatim>\<open>imageData\<close> nor \<^verbatim>\<open>imagePath\<close> does not pass
  argument validation: \<^verbatim>\<open>parse\<close> throws the validation error before the handler does
  anything else. (By \<open>GenerateVariationsArgs_image\<close> the handler's own test of line 897
  is never reached with arguments that passed.)
\<close>

theorem variations_image_required_by_schema:
  assumes "noImageRef kvs"
  shows "\<not> accepts (GenerateVariationsArgsSchema (Some (JObj kvs))) \<and>
         (\<exists>is. handleGenerateVariations env (Some (JObj kvs)) tr = (Inl (ZodError is), tr))"
  using GenerateVariationsArgs_noImageRef [OF assms]
  by (auto simp: accepts_def handleGenerateVariations_def)

theorem variations_image_required_by_schema_witness:
  "noImageRef [(''count'', JNum 2)] \<and>
   \<not> accepts (GenerateVariationsArgsSchema (Some (JObj [(''count'', JNum 2)]))) \<and>
   snd (handleGenerateVariations (scripted []) (Some (JObj [(''count'', JNum 2)])) []) = []"
proof -
  have h: "noImageRef [(''count'', JNum 2)]"
    by code_simp
  show ?thesis
    using h variations_image_required_by_schema [OF h, of "scripted []" "[]"]
    by auto
qed

text \<open>Claim C8 as it was stated lets the empty argument object pass validation and has
  the handler throw \<^verbatim>\<open>Error("Either imageData or imagePath must be provided")\<close>. The
  schema rejects it, and what is thrown is the validation error with the issue of the
  \<^verbatim>\<open>refine\<close>.\<close>

theorem variations_empty_args_rejected_by_schema:
  "\<not> accepts (GenerateVariationsArgsSchema (Some (JObj [])))
   \<and> handleGenerateVariations (scripted []) (Some (JObj [])) []
       = (Inl (ZodError [Custom [] ''Either imageData or imagePath must be provided'']), [])"
  by code_simp

section \<open>Batches, file names and MIME types on concrete calls\<close>

text \<open>
  Claim C1 asks for one outcome per prompt, in the order of the prompts, in both modes.
  Take the prompts A, B, C and a service that answers B with a response without
  candidates. The sequential loop (line 838 has no \<^verbatim>\<open>else\<close>) records nothing for B:
  two outcomes. The parallel callback (line 822) records the failure: three outcomes.
\<close>

theorem sequential_batch_drops_prompt_without_candidates:
  "fst (batchResults
        (scripted [Inr (imageResponse ''image/png''), Inr blockedResponse, Inr (imageResponse ''image/png'')])
        ''out'' None False [''A'', ''B'', ''C''] [])
     = [succeeded ''A'' ''out/batch-1-2025-01-02T03-04-05-678Z.png'',
        succeeded ''C'' ''out/batch-3-2025-01-02T03-04-05-678Z.png'']
   \<and> fst (batchResults
        (scripted [Inr (imageResponse ''image/png''), Inr blockedResponse, Inr (imageResponse ''image/png'')])
        ''out'' None True [''A'', ''B'', ''C''] [])
     = [succeeded ''A'' ''out/batch-1-2025-01-02T03-04-05-678Z.png'',
        failed ''B'' ''No image generated'',
        succeeded ''C'' ''out/batch-3-2025-01-02T03-04-05-678Z.png'']"
  by code_simp

text \<open>
  Claim C2 asks for the extension \<^verbatim>\<open>jpg\<close> exactly when the image of the response has the
  MIME type \<^verbatim>\<open>image/jpeg\<close>, for every tool that writes an image. With a response of
  that type, \<^verbatim>\<open>batch_generate\<close>, \<^verbatim>\<open>generate_variations\<close> and
  \<^verbatim>\<open>generate_with_template\<close> write a file named \<^verbatim>\<open>.png\<close> (lines 813, 842, 939 and
  1006), where \<^verbatim>\<open>generate_image\<close> writes one named \<^verbatim>\<open>.jpg\<close>.
\<close>

theorem batch_variation_template_name_jpeg_png:
  "saved (snd (callTool (scripted [Inr (imageResponse ''image/jpeg'')]) ''batch_generate''
        (Some (JObj [(''prompts'', JArr [JStr ''A'']), (''outputDir'', JStr ''out'')])) []))
     = [''out/batch-1-2025-01-02T03-04-05-678Z.png'']
  \<and> saved (snd (callTool (scripted [Inr (imageResponse ''image/jpeg'')]) ''generate_variations''
        (Some (JObj [(''imageData'', JStr ''QUJD''), (''count'', JNum 1), (''outputDir'', JStr ''out'')])) []))
     = [''out/variation-1-2025-01-02T03-04-05-678Z.png'']
  \<and> saved (snd (callTool (scripted [Inr (imageResponse ''image/jpeg'')]) ''generate_with_template''
        (Some (JObj [(''template'', JStr ''logo''), (''customization'', JStr ''for a coffee shop''),
           (''outputDir'', JStr ''out'')])) []))
     = [''out/logo-2025-01-02T03-04-05-678Z.png'']
  \<and> saved (snd (callTool (scripted [Inr (imageResponse ''image/jpeg'')]) ''generate_image''
        (Some (JObj [(''prompt'', JStr ''A''), (''outputDir'', JStr ''out'')])) []))
     = [''out/generated-image-2025-01-02T03-04-05-678Z.jpg'']"
  by code_simp

text \<open>
  Claim C3 asks for the MIME type of an image read from a path to follow the extension,
  \<^verbatim>\<open>.gif\<close> to \<^verbatim>\<open>image/gif\<close> and so on, in every tool. For \<^verbatim>\<open>photo.gif\<close> the
  resolver of \<^verbatim>\<open>edit_image\<close> gives \<^verbatim>\<open>image/gif\<close>, the one of
  \<^verbatim>\<open>generate_variations\<close> (line 895 knows \<^verbatim>\<open>.jpg\<close> and \<^verbatim>\<open>.jpeg\<close> only) gives
  \<^verbatim>\<open>image/png\<close>, and \<^verbatim>\<open>compare_images\<close> (lines 1036 and 1043) sends
  \<^verbatim>\<open>before.jpg\<close> and \<^verbatim>\<open>after.webp\<close> as \<^verbatim>\<open>image/png\<close>.
\<close>

theorem variations_and_compare_ignore_extension:
  "fst (resolveBaseImage (scripted []) None (Some ''photo.gif'') []) = Inr (''QUJD'', ''image/png'')
  \<and> fst (resolveImage (scripted []) None (Some ''photo.gif'') []) = Inr (''QUJD'', ''image/gif'')
  \<and> map parts (requests (snd (callTool (scripted [Inr (imageResponse ''image/png'')]) ''generate_variations''
        (Some (JObj [(''imagePath'', JStr ''photo.gif''), (''count'', JNum 1)])) [])))
     = [[TextPart (variationPrompts moderate @ '' (variation 1 of 1)''), InlineDataPart ''QUJD'' ''image/png'']]
  \<and> map parts (requests (snd (callTool (scripted [Inr (Response None (Inr ''They differ.''))]) ''compare_images''
        (Some (JObj [(''image1Path'', JStr ''before.jpg''), (''image2Path'', JStr ''after.webp'')])) [])))
     = [[TextPart (comparePrompt both), InlineDataPart ''QUJD'' ''image/png'', InlineDataPart ''QUJD'' ''image/png'']]"
  by code_simp

section \<open>The log of a call\<close>

text \<open>Every operation appends to the log. The lemmas of this section say what a
  function appends: which requests, and which files it saved.\<close>

lemma saved_append [simp]: "saved (a @ b) = saved a @ saved b"
  by (simp add: saved_def)

lemma requests_append [simp]: "requests (a @ b) = requests a @ requests b"
  by (simp add: requests_def)

lemma saved_Nil [simp]: "saved [] = []"
  by (simp add: saved_def)

lemma requests_Nil [simp]: "requests [] = []"
  by (simp add: requests_def)

lemma saved_single [simp]: "saved [e] = savedPath e"
  by (simp add: saved_def)

lemma requests_single [simp]: "requests [e] = requestOf e"
  by (simp add: requests_def)

lemma saveImage_log:
  "\<exists>new. snd (saveImage env outputDir filename imageData tr) = tr @ new \<and> requests new = [] \<and>
     saved new = (case fst (saveImage env outputDir filename imageData tr) of Inr fp \<Rightarrow> [fp] | Inl e \<Rightarrow> [])"
proof (cases "mkdir env tr outputDir")
  case (Some m)
  then have "snd (saveImage env outputDir filename imageData tr) = tr @ [Mkdir outputDir (Some m)]"
    and "fst (saveImage env outputDir filename imageData tr) = Inl (Error m)"
    by (simp_all add: saveImage_def fsMkdir_def)
  then show ?thesis by simp
next
  case None
  let ?tr1 = "tr @ [Mkdir outputDir None]"
  let ?p = "join env outputDir filename"
  show ?thesis
  proof (cases "writeFile env ?tr1 ?p imageData")
    case (Some m)
    with None have "snd (saveImage env outputDir filename imageData tr)
        = tr @ [Mkdir outputDir None, Write ?p imageData (Some m)]"
      and "fst (saveImage env outputDir filename imageData tr) = Inl (Error m)"
      by (simp_all add: saveImage_def fsMkdir_def fsWriteFile_def)
    then show ?thesis by (simp add: saved_def requests_def)
  next
    case wn: None
    with None have "snd (saveImage env outputDir filename imageData tr)
        = tr @ [Mkdir outputDir None, Write ?p imageData None]"
      and "fst (saveImage env outputDir filename imageData tr) = Inr ?p"
      by (simp_all add: saveImage_def fsMkdir_def fsWriteFile_def)
    then show ?thesis by (simp add: saved_def requests_def)
  qed
qed

lemma variationStep_log:
  "\<exists>new. snd (variationStep env basePrompt imagePart gc outputDir count i results tr) = tr @ new \<and>
     requests new = [variationRequest env basePrompt imagePart gc count i] \<and>
     fst (variationStep env basePrompt imagePart gc outputDir count i results tr) = results @ saved new"
proof -
  let ?req = "variationRequest env basePrompt imagePart gc count i"
  let ?r = "generateContent env tr ?req"
  let ?tr1 = "tr @ [Call ?req ?r]"
  have call: "callModel env ?req tr = (?r, ?tr1)"
    by (simp add: callModel_def)
  show ?thesis
  proof (cases ?r)
    case (Inl m)
    then have "variationStep env basePrompt imagePart gc outputDir count i results tr = (results, ?tr1)"
      by (simp add: variationStep_def call)
    then show ?thesis by simp
  next
    case (Inr resp)
    show ?thesis
    proof (cases "firstParts resp")
      case None
      with Inr have "variationStep env basePrompt imagePart gc outputDir count i results tr = (results, ?tr1)"
        by (simp add: variationStep_def call)
      then show ?thesis by simp
    next
      case (Some ps)
      show ?thesis
      proof (cases "findInlineData ps")
        case None
        with Inr Some have "variationStep env basePrompt imagePart gc outputDir count i results tr = (results, ?tr1)"
          by (simp add: variationStep_def call)
        then show ?thesis by simp
      next
        case found: (Some im)
        obtain imageData mimeType where im: "im = (imageData, mimeType)"
          by (cases im)
        let ?s = "saveImage env outputDir (variationFilename env i ?tr1) imageData ?tr1"
        obtain new where new: "snd ?s = ?tr1 @ new" "requests new = []"
          "saved new = (case fst ?s of Inr fp \<Rightarrow> [fp] | Inl e \<Rightarrow> [])"
          using saveImage_log by blast
        have step: "variationStep env basePrompt imagePart gc outputDir count i results tr
            = (case fst ?s of Inl e \<Rightarrow> results | Inr fp \<Rightarrow> results @ [fp], snd ?s)"
          using Inr Some found im
          by (cases ?s) (auto simp: variationStep_def call split: sum.splits)
        have "snd (variationStep env basePrompt imagePart gc outputDir count i results tr)
            = tr @ (Call ?req ?r # new)"
          by (simp add: step new)
        moreover have "requests (Call ?req ?r # new) = [?req]"
          using new(2) by (simp add: requests_def)
        moreover have "fst (variationStep env basePrompt imagePart gc outputDir count i results tr)
            = results @ saved (Call ?req ?r # new)"
          using new(3) by (simp add: step saved_def split: sum.splits)
        ultimately show ?thesis by blast
      qed
    qed
  qed
qed

lemma loop_guard: "(of_nat i < (count::rat)) = (i < nat \<lceil>count\<rceil>)"
  by (simp add: less_ceiling_iff zless_nat_eq_int_zless)

lemma variationLoop_log:
  "\<exists>new. snd (variationLoop env basePrompt imagePart gc outputDir count i results tr) = tr @ new \<and>
     requests new = map (variationRequest env basePrompt imagePart gc count) [i..<nat \<lceil>count\<rceil>] \<and>
     fst (variationLoop env basePrompt imagePart gc outputDir count i results tr) = results @ saved new"
proof (induction env basePrompt imagePart gc outputDir count i results tr rule: variationLoop.induct)
  case (1 env basePrompt imagePart gc outputDir count i results tr)
  show ?case
  proof (cases "of_nat i < count")
    case False
    then have "\<not> i < nat \<lceil>count\<rceil>"
      by (simp add: loop_guard)
    with False show ?thesis
      by (simp add: variationLoop.simps [of env basePrompt imagePart gc outputDir count i])
  next
    case True
    then have lt: "i < nat \<lceil>count\<rceil>"
      by (simp add: loop_guard)
    let ?st = "variationStep env basePrompt imagePart gc outputDir count i results tr"
    obtain new1 where n1: "snd ?st = tr @ new1"
      "requests new1 = [variationRequest env basePrompt imagePart gc count i]"
      "fst ?st = results @ saved new1"
      using variationStep_log by blast
    obtain new2 where n2:
      "snd (variationLoop env basePrompt imagePart gc outputDir count (Suc i) (fst ?st) (snd ?st)) = snd ?st @ new2"
      "requests new2 = map (variationRequest env basePrompt imagePart gc count) [Suc i..<nat \<lceil>count\<rceil>]"
      "fst (variationLoop env basePrompt imagePart gc outputDir count (Suc i) (fst ?st) (snd ?st)) = fst ?st @ saved new2"
      using "1.IH" [OF True] by blast
    have unfold: "variationLoop env basePrompt imagePart gc outputDir count i results tr
        = variationLoop env basePrompt imagePart gc outputDir count (Suc i) (fst ?st) (snd ?st)"
      using True by (simp add: variationLoop.simps [of env basePrompt imagePart gc outputDir count i])
    have "snd (variationLoop env basePrompt imagePart gc outputDir count i results tr) = snd ?st @ new2"
      by (simp only: unfold n2(1))
    then have "snd (variationLoop env basePrompt imagePart gc outputDir count i results tr) = tr @ (new1 @ new2)"
      by (simp add: n1(1))
    moreover have "requests (new1 @ new2)
        = map (variationRequest env basePrompt imagePart gc count) [i..<nat \<lceil>count\<rceil>]"
      using lt by (simp add: n1(2) n2(2) upt_conv_Cons)
    moreover have "fst (variationLoop env basePrompt imagePart gc outputDir count i results tr)
        = fst ?st @ saved new2"
      by (simp only: unfold n2(3))
    then have "fst (variationLoop env basePrompt imagePart gc outputDir count i results tr)
        = results @ saved (new1 @ new2)"
      by (simp add: n1(3))
    ultimately show ?thesis by blast
  qed
qed

lemma sublist_within: "sublist xs ys \<Longrightarrow> sublist xs (a @ ys @ b)"
proof -
  assume "sublist xs ys"
  then obtain ps ss where "ys = ps @ xs @ ss"
    by (auto simp: sublist_def)
  then have "a @ ys @ b = (a @ ps) @ xs @ (ss @ b)"
    by simp
  then show ?thesis
    unfolding sublist_def by blast
qed

lemma sublist_joinWith: "x \<in> set xs \<Longrightarrow> sublist x (joinWith sep xs)"
proof (induction sep xs rule: joinWith.induct)
  case (1 sep)
  then show ?case by simp
next
  case (2 sep y)
  then show ?case by simp
next
  case (3 sep y z zs)
  show ?case
  proof (cases "x = y")
    case True
    then show ?thesis by simp
  next
    case False
    with 3 have "sublist x (joinWith sep (z # zs))" by simp
    from sublist_within [OF this, of "y @ sep" "[]"] show ?thesis by simp
  qed
qed

lemma resultText_textResult [simp]: "resultText (textResult t) = t"
  by (simp add: resultText_def textResult_def)

lemma generateAndSave_log:
  assumes "generateAndSave env req noCandidates name outputDir report tr = (Inr res, tr')"
  shows "\<exists>new fp. tr' = tr @ new \<and> saved new = [fp] \<and> res = textResult (report fp)"
proof -
  let ?r = "generateContent env tr req"
  let ?tr1 = "tr @ [Call req ?r]"
  have call: "callModel env req tr = (?r, ?tr1)"
    by (simp add: callModel_def)
  from assms obtain resp where resp: "?r = Inr resp"
    by (cases ?r) (auto simp: generateAndSave_def call)
  from assms resp obtain imageData mimeType where im: "extractImage noCandidates resp = Inr (imageData, mimeType)"
    by (cases "extractImage noCandidates resp") (auto simp: generateAndSave_def call)
  let ?s = "saveImage env outputDir (name mimeType (timestamp env ?tr1)) imageData ?tr1"
  from assms resp im obtain fp where fp: "?s = (Inr fp, tr')" "res = textResult (report fp)"
    by (cases ?s) (auto simp: generateAndSave_def call split: sum.splits)
  obtain new where new: "snd ?s = ?tr1 @ new"
    "saved new = (case fst ?s of Inr fp \<Rightarrow> [fp] | Inl e \<Rightarrow> [])"
    using saveImage_log by blast
  have "tr' = tr @ (Call req ?r # new)"
    using new(1) fp(1) by simp
  moreover have "saved (Call req ?r # new) = [fp]"
    using new(2) fp(1) by (simp add: saved_def)
  ultimately show ?thesis
    using fp(2) by blast
qed

lemma fsReadFile_log:
  "fsReadFile env p tr = (r, tr') \<Longrightarrow> \<exists>new. tr' = tr @ new \<and> saved new = [] \<and> requests new = []"
  by (auto simp: fsReadFile_def)

lemma resolveImage_log:
  "resolveImage env imageData imagePath tr = (r, tr') \<Longrightarrow>
   \<exists>new. tr' = tr @ new \<and> saved new = [] \<and> requests new = []"
  by (auto simp: resolveImage_def fsReadFile_def split: option.splits sum.splits)

lemma resolveBaseImage_log:
  "resolveBaseImage env imageData imagePath tr = (r, tr') \<Longrightarrow>
   \<exists>new. tr' = tr @ new \<and> saved new = [] \<and> requests new = []"
  by (auto simp: resolveBaseImage_def fsReadFile_def split: option.splits sum.splits)

lemma resolveImages_log:
  "resolveImages env images i imageParts tr = (r, tr') \<Longrightarrow>
   \<exists>new. tr' = tr @ new \<and> saved new = [] \<and> requests new = []"
proof (induction images arbitrary: i imageParts tr)
  case Nil
  then show ?case by simp
next
  case (Cons img images)
  show ?case
  proof (cases "nonempty (fst img)")
    case (Some d)
    with Cons.prems have "resolveImages env images (Suc i) (imageParts @ [InlineDataPart d ''image/png'']) tr = (r, tr')"
      by simp
    from Cons.IH [OF this] show ?thesis .
  next
    case None
    show ?thesis
    proof (cases "nonempty (fst (snd img))")
      case pn: None
      with None Cons.prems show ?thesis by simp
    next
      case (Some p)
      show ?thesis
      proof (cases "readFile env tr p")
        case (Inl m)
        with None Some Cons.prems have "tr' = tr @ [Read p (Inl m)]" by simp
        then show ?thesis by simp
      next
        case (Inr d)
        with None Some Cons.prems have
          "resolveImages env images (Suc i)
             (imageParts @ [InlineDataPart d (mimeTypeOfExt (toLowerCase (extname env p)))])
             (tr @ [Read p (Inr d)]) = (r, tr')"
          by simp
        from Cons.IH [OF this] obtain new where
          "tr' = (tr @ [Read p (Inr d)]) @ new" "saved new = []" "requests new = []"
          by blast
        then have "tr' = tr @ (Read p (Inr d) # new)" "saved (Read p (Inr d) # new) = []"
          "requests (Read p (Inr d) # new) = []"
          by (simp_all add: saved_def requests_def)
        then show ?thesis by blast
      qed
    qed
  qed
qed

section \<open>A successful call reports the files it saved\<close>

lemma sublist_skip: "sublist xs ys \<Longrightarrow> sublist xs (a @ ys)"
  using sublist_within [of xs ys a "[]"] by simp

lemma generateAndSave_reports:
  assumes "generateAndSave env req noCandidates name outputDir report tr = (Inr res, tr')"
    and "\<And>fp. sublist fp (report fp)"
  shows "\<exists>t new. res = textResult t \<and> tr' = tr @ new \<and> (\<forall>p\<in>set (saved new). sublist p t)"
proof -
  from generateAndSave_log [OF assms(1)] obtain new fp where
    "tr' = tr @ new" "saved new = [fp]" "res = textResult (report fp)"
    by blast
  with assms(2) [of fp] show ?thesis
    by (intro exI [of _ "report fp"] exI [of _ new]) simp
qed

lemma handleGenerateImage_reports:
  assumes "handleGenerateImage env args tr = (Inr res, tr')"
  shows "\<exists>t new. res = textResult t \<and> tr' = tr @ new \<and> (\<forall>p\<in>set (saved new). sublist p t)"
proof (cases "parse (GenerateImageArgsSchema args)")
  case (Inl e)
  with assms show ?thesis by (simp add: handleGenerateImage_def)
next
  case (Inr a)
  obtain prompt outputDir config where a: "a = (prompt, outputDir, config)"
    by (cases a)
  show ?thesis
  proof (rule generateAndSave_reports)
    show "generateAndSave env
        \<lparr>model = imageModel, parts = [TextPart prompt], generationConfig = Some (imageConfig config)\<rparr>
        ''No image was generated''
        (\<lambda>mimeType ts. ''generated-image-'' @ ts @ extension mimeType)
        (orDefault outputDir ''.'')
        (\<lambda>filepath. ''Image generated successfully and saved to: '' @ filepath)
        tr = (Inr res, tr')"
      using assms by (simp only: handleGenerateImage_def Inr a sum.case prod.case)
  next
    fix fp :: string
    show "sublist fp (''Image generated successfully and saved to: '' @ fp)"
      by (rule sublist_append_leftI)
  qed
qed

lemma handleGenerateWithTemplate_reports:
  assumes "handleGenerateWithTemplate env args tr = (Inr res, tr')"
  shows "\<exists>t new. res = textResult t \<and> tr' = tr @ new \<and> (\<forall>p\<in>set (saved new). sublist p t)"
proof (cases "parse (PromptTemplateArgsSchema args)")
  case (Inl e)
  with assms show ?thesis by (simp add: handleGenerateWithTemplate_def)
next
  case (Inr a)
  obtain template customization outputDir config where a: "a = (template, customization, outputDir, config)"
    by (cases a)
  show ?thesis
  proof (rule generateAndSave_reports)
    show "generateAndSave env
        \<lparr>model = imageModel,
         parts = [TextPart (promptTemplates template @ ''. '' @ customization)],
         generationConfig = Some (imageConfig config)\<rparr>
        ''No image was generated''
        (\<lambda>mimeType ts. templateName template @ ''-'' @ ts @ ''.png'')
        (orDefault outputDir ''.'')
        (\<lambda>filepath. ''Generated '' @ templateName template @ '' style image: '' @ filepath
           @ [CHR 0x0A] @ ''Prompt used: '' @ promptTemplates template @ ''. '' @ customization)
        tr = (Inr res, tr')"
      using assms by (simp only: handleGenerateWithTemplate_def Inr a sum.case prod.case)
  next
    fix fp :: string
    show "sublist fp (''Generated '' @ templateName template @ '' style image: '' @ fp
           @ [CHR 0x0A] @ ''Prompt used: '' @ promptTemplates template @ ''. '' @ customization)"
      by (rule sublist_skip, rule sublist_skip, rule sublist_skip, rule sublist_append_rightI)
  qed
qed

lemma reports_after:
  assumes "tr1 = tr @ new1" "saved new1 = []"
    and "\<exists>t new. res = textResult t \<and> tr' = tr1 @ new \<and> (\<forall>p\<in>set (saved new). sublist p t)"
  shows "\<exists>t new. res = textResult t \<and> tr' = tr @ new \<and> (\<forall>p\<in>set (saved new). sublist p t)"
proof -
  from assms(3) obtain t new where "res = textResult t" "tr' = tr1 @ new" "\<forall>p\<in>set (saved new). sublist p t"
    by blast
  with assms(1,2) have "res = textResult t \<and> tr' = tr @ (new1 @ new) \<and> (\<forall>p\<in>set (saved (new1 @ new)). sublist p t)"
    by simp
  then show ?thesis by blast
qed

lemma handleEditImage_reports:
  assumes "handleEditImage env args tr = (Inr res, tr')"
  shows "\<exists>t new. res = textResult t \<and> tr' = tr @ new \<and> (\<forall>p\<in>set (saved new). sublist p t)"
proof (cases "parse (EditImageArgsSchema args)")
  case (Inl e)
  with assms show ?thesis by (simp add: handleEditImage_def)
next
  case (Inr a)
  obtain prompt imageData imagePath outputDir config where
    a: "a = (prompt, imageData, imagePath, outputDir, config)"
    by (cases a)
  obtain r tr1 where r: "resolveImage env imageData imagePath tr = (r, tr1)"
    by (cases "resolveImage env imageData imagePath tr")
  from resolveImage_log [OF r] obtain new1 where n1: "tr1 = tr @ new1" "saved new1 = []"
    by blast
  show ?thesis
  proof (cases r)
    case (Inl e)
    have "handleEditImage env args tr = (Inl e, tr1)"
      by (simp only: handleEditImage_def Inr a r Inl sum.case prod.case)
    with assms show ?thesis by simp
  next
    case im: (Inr i)
    obtain finalImageData mimeType where i: "i = (finalImageData, mimeType)"
      by (cases i)
    show ?thesis
    proof (rule reports_after [OF n1], rule generateAndSave_reports)
      show "generateAndSave env
         \<lparr>model = imageModel,
          parts = [TextPart prompt, InlineDataPart finalImageData mimeType],
          generationConfig = Some (imageConfig config)\<rparr>
         ''No edited image was generated''
         (\<lambda>outputMimeType ts. ''edited-image-'' @ ts @ extension outputMimeType)
         (orDefault outputDir ''.'')
         (\<lambda>filepath. ''Image edited successfully and saved to: '' @ filepath)
         tr1 = (Inr res, tr')"
        using assms by (simp only: handleEditImage_def Inr a r im i sum.case prod.case)
    next
      fix fp :: string
      show "sublist fp (''Image edited successfully and saved to: '' @ fp)"
        by (rule sublist_append_leftI)
    qed
  qed
qed

lemma handleMultiImageEdit_reports:
  assumes "handleMultiImageEdit env args tr = (Inr res, tr')"
  shows "\<exists>t new. res = textResult t \<and> tr' = tr @ new \<and> (\<forall>p\<in>set (saved new). sublist p t)"
proof (cases "parse (MultiImageEditArgsSchema args)")
  case (Inl e)
  with assms show ?thesis by (simp add: handleMultiImageEdit_def)
next
  case (Inr a)
  obtain prompt images outputDir config where
    a: "a = (prompt, images, outputDir, config)"
    by (cases a)
  obtain r tr1 where r: "resolveImages env images 0 [] tr = (r, tr1)"
    by (cases "resolveImages env images 0 [] tr")
  from resolveImages_log [OF r] obtain new1 where n1: "tr1 = tr @ new1" "saved new1 = []"
    by blast
  show ?thesis
  proof (cases r)
    case (Inl e)
    have "handleMultiImageEdit env args tr = (Inl e, tr1)"
      by (simp only: handleMultiImageEdit_def Inr a r Inl sum.case prod.case)
    with assms show ?thesis by simp
  next
    case im: (Inr imageParts)
    show ?thesis
    proof (rule reports_after [OF n1], rule generateAndSave_reports)
      show "generateAndSave env
                 \<lparr>model = imageModel, parts = TextPart prompt # imageParts,
                  generationConfig = Some (imageConfig config)\<rparr>
                 ''No multi-image result was generated''
                 (\<lambda>outputMimeType ts. ''multi-image-result-'' @ ts @ extension outputMimeType)
                 (orDefault outputDir ''.'')
                 (\<lambda>filepath. ''Multi-image processing completed successfully and saved to: '' @ filepath)
                 tr1 = (Inr res, tr')"
        using assms by (simp only: handleMultiImageEdit_def Inr a r im sum.case prod.case)
    next
      fix fp :: string
      show "sublist fp (''Multi-image processing completed successfully and saved to: '' @ fp)"
        by (rule sublist_append_leftI)
    qed
  qed
qed

lemma handleAnalyzeImage_reports:
  assumes "handleAnalyzeImage env args tr = (Inr res, tr')"
  shows "\<exists>t new. res = textResult t \<and> tr' = tr @ new \<and> (\<forall>p\<in>set (saved new). sublist p t)"
proof (cases "parse (AnalyzeImageArgsSchema args)")
  case (Inl e)
  with assms show ?thesis by (simp add: handleAnalyzeImage_def)
next
  case (Inr a)
  obtain prompt imageData imagePath config where a: "a = (prompt, imageData, imagePath, config)"
    by (cases a)
  obtain r tr1 where r: "resolveImage env imageData imagePath tr = (r, tr1)"
    by (cases "resolveImage env imageData imagePath tr")
  from resolveImage_log [OF r] obtain new1 where n1: "tr1 = tr @ new1" "saved new1 = []"
    by blast
  show ?thesis
  proof (cases r)
    case (Inl e)
    have "handleAnalyzeImage env args tr = (Inl e, tr1)"
      by (simp only: handleAnalyzeImage_def Inr a r Inl sum.case prod.case)
    with assms show ?thesis by simp
  next
    case im: (Inr i)
    obtain finalImageData mimeType where i: "i = (finalImageData, mimeType)"
      by (cases i)
    from assms have "\<exists>t c. res = textResult t \<and> tr' = tr1 @ [Call c (generateContent env tr1 c)]"
      by (simp only: handleAnalyzeImage_def Inr a r im i sum.case prod.case)
        (auto simp: callModel_def split: sum.splits response.splits)
    then obtain t c where "res = textResult t" "tr' = tr @ (new1 @ [Call c (generateContent env tr1 c)])"
      using n1(1) by auto
    moreover have "saved (new1 @ [Call c (generateContent env tr1 c)]) = []"
      using n1(2) by simp
    ultimately show ?thesis by (metis empty_iff empty_set)
  qed
qed

lemma handleCompareImages_reports:
  assumes "handleCompareImages env args tr = (Inr res, tr')"
  shows "\<exists>t new. res = textResult t \<and> tr' = tr @ new \<and> (\<forall>p\<in>set (saved new). sublist p t)"
proof (cases "parse (CompareImagesArgsSchema args)")
  case (Inl e)
  with assms show ?thesis by (simp add: handleCompareImages_def)
next
  case (Inr a)
  obtain image1Path image2Path compareType where a: "a = (image1Path, image2Path, compareType)"
    by (cases a)
  let ?r1 = "readFile env tr image1Path"
  let ?tr1 = "tr @ [Read image1Path ?r1]"
  let ?r2 = "readFile env ?tr1 image2Path"
  let ?tr2 = "?tr1 @ [Read image2Path ?r2]"
  from assms have "\<exists>t c. res = textResult t \<and> tr' = ?tr2 @ [Call c (generateContent env ?tr2 c)]"
    by (simp only: handleCompareImages_def Inr a sum.case prod.case)
      (auto simp: callModel_def fsReadFile_def split: sum.splits response.splits)
  then obtain t c where "res = textResult t"
    "tr' = tr @ [Read image1Path ?r1, Read image2Path ?r2, Call c (generateContent env ?tr2 c)]"
    by auto
  moreover have "saved [Read image1Path ?r1, Read image2Path ?r2, Call c (generateContent env ?tr2 c)] = []"
    by (simp add: saved_def)
  ultimately show ?thesis by (metis empty_iff empty_set)
qed

lemma successPaths_append [simp]: "successPaths (a @ b) = successPaths a @ successPaths b"
  by (simp add: successPaths_def)

lemma successPaths_succeeded [simp]: "successPaths [succeeded prompt fp] = [fp]"
  by (simp add: successPaths_def succeeded_def showOpt_def)

lemma successPaths_failed [simp]: "successPaths [failed prompt e] = []"
  by (simp add: successPaths_def failed_def)

lemma parallelItem_log:
  "\<exists>new. snd (parallelItem env outputDir index prompt reply tr) = tr @ new \<and> requests new = [] \<and>
     saved new = successPaths [fst (parallelItem env outputDir index prompt reply tr)]"
proof (cases reply)
  case (Inl m)
  then have "parallelItem env outputDir index prompt reply tr = (failed prompt m, tr)"
    by (simp add: parallelItem_def)
  then show ?thesis by simp
next
  case (Inr resp)
  show ?thesis
  proof (cases "firstParts resp")
    case None
    with Inr have "parallelItem env outputDir index prompt reply tr = (failed prompt ''No image generated'', tr)"
      by (simp add: parallelItem_def)
    then show ?thesis by (simp only: fst_conv snd_conv successPaths_failed) simp
  next
    case (Some ps)
    show ?thesis
    proof (cases "findInlineData ps")
      case None
      with Inr Some have "parallelItem env outputDir index prompt reply tr = (failed prompt ''No image generated'', tr)"
        by (simp add: parallelItem_def)
      then show ?thesis by (simp only: fst_conv snd_conv successPaths_failed) simp
    next
      case found: (Some im)
      obtain imageData mimeType where im: "im = (imageData, mimeType)"
        by (cases im)
      let ?s = "saveImage env outputDir (batchFilename env index tr) imageData tr"
      obtain new where new: "snd ?s = tr @ new" "requests new = []"
        "saved new = (case fst ?s of Inr fp \<Rightarrow> [fp] | Inl e \<Rightarrow> [])"
        using saveImage_log by blast
      have item: "parallelItem env outputDir index prompt reply tr
          = (case fst ?s of Inl e \<Rightarrow> failed prompt (errorMessage env e) | Inr fp \<Rightarrow> succeeded prompt fp, snd ?s)"
        using Inr Some found im
        by (cases ?s) (simp add: parallelItem_def split: sum.splits)
      have "saved new = successPaths [fst (parallelItem env outputDir index prompt reply tr)]"
        unfolding item new(3) by (cases "fst ?s") simp_all
      with new(1,2) item show ?thesis by simp
    qed
  qed
qed


lemma sequentialItem_log:
  "\<exists>new. snd (sequentialItem env outputDir config i prompt results tr) = tr @ new \<and>
     successPaths (fst (sequentialItem env outputDir config i prompt results tr))
       = successPaths results @ saved new"
proof -
  let ?req = "batchRequest config prompt"
  let ?r = "generateContent env tr ?req"
  let ?tr1 = "tr @ [Call ?req ?r]"
  have call: "callModel env ?req tr = (?r, ?tr1)"
    by (simp add: callModel_def)
  show ?thesis
  proof (cases ?r)
    case (Inl m)
    then have "sequentialItem env outputDir config i prompt results tr = (results @ [failed prompt m], ?tr1)"
      by (simp add: sequentialItem_def call)
    then show ?thesis by simp
  next
    case (Inr resp)
    show ?thesis
    proof (cases "firstParts resp")
      case None
      with Inr have "sequentialItem env outputDir config i prompt results tr = (results, ?tr1)"
        by (simp add: sequentialItem_def call)
      then show ?thesis by simp
    next
      case (Some ps)
      show ?thesis
      proof (cases "findInlineData ps")
        case None
        with Inr Some have "sequentialItem env outputDir config i prompt results tr
            = (results @ [failed prompt ''No image generated''], ?tr1)"
          by (simp add: sequentialItem_def call)
        then show ?thesis by (simp only: fst_conv snd_conv successPaths_append successPaths_failed) simp
      next
        case found: (Some im)
        obtain imageData mimeType where im: "im = (imageData, mimeType)"
          by (cases im)
        let ?s = "saveImage env outputDir (batchFilename env i ?tr1) imageData ?tr1"
        obtain new where new: "snd ?s = ?tr1 @ new"
          "saved new = (case fst ?s of Inr fp \<Rightarrow> [fp] | Inl e \<Rightarrow> [])"
          using saveImage_log by blast
        have item: "sequentialItem env outputDir config i prompt results tr
            = (results @ [case fst ?s of Inl e \<Rightarrow> failed prompt (errorMessage env e) | Inr fp \<Rightarrow> succeeded prompt fp], snd ?s)"
          using Inr Some found im
          by (cases ?s) (simp add: sequentialItem_def call split: sum.splits)
        have "snd (sequentialItem env outputDir config i prompt results tr) = tr @ (Call ?req ?r # new)"
          by (simp add: item new(1))
        moreover have "successPaths (fst (sequentialItem env outputDir config i prompt results tr))
            = successPaths results @ saved (Call ?req ?r # new)"
          unfolding item using new(2) by (cases "fst ?s") (simp_all add: saved_def)
        ultimately show ?thesis by blast
      qed
    qed
  qed
qed

lemma sequentialLoop_log:
  "\<exists>new. snd (sequentialLoop env outputDir config prompts i results tr) = tr @ new \<and>
     successPaths (fst (sequentialLoop env outputDir config prompts i results tr))
       = successPaths results @ saved new"
proof (induction env outputDir config prompts i results tr rule: sequentialLoop.induct)
  case (1 env outputDir config prompts i results tr)
  show ?case
  proof (cases "i < length prompts")
    case False
    then show ?thesis
      by (simp add: sequentialLoop.simps [of env outputDir config prompts i])
  next
    case True
    let ?it = "sequentialItem env outputDir config i (prompts ! i) results tr"
    let ?rest = "sequentialLoop env outputDir config prompts (Suc i) (fst ?it) (snd ?it)"
    obtain new1 where n1: "snd ?it = tr @ new1"
      "successPaths (fst ?it) = successPaths results @ saved new1"
      using sequentialItem_log by blast
    obtain new2 where n2: "snd ?rest = snd ?it @ new2"
      "successPaths (fst ?rest) = successPaths (fst ?it) @ saved new2"
      using "1.IH" [OF True] by blast
    have unfold: "sequentialLoop env outputDir config prompts i results tr = ?rest"
      using True by (simp add: sequentialLoop.simps [of env outputDir config prompts i])
    have "snd (sequentialLoop env outputDir config prompts i results tr) = snd ?it @ new2"
      by (simp only: unfold n2(1))
    then have "snd (sequentialLoop env outputDir config prompts i results tr) = tr @ (new1 @ new2)"
      by (simp add: n1(1))
    moreover have "successPaths (fst (sequentialLoop env outputDir config prompts i results tr))
        = successPaths (fst ?it) @ saved new2"
      by (simp only: unfold n2(2))
    then have "successPaths (fst (sequentialLoop env outputDir config prompts i results tr))
        = successPaths results @ saved (new1 @ new2)"
      by (simp add: n1(2))
    ultimately show ?thesis by blast
  qed
qed

lemma issueAll_log:
  "\<exists>new. snd (issueAll env config prompts index tr) = tr @ new \<and> saved new = []"
proof (induction prompts arbitrary: index tr)
  case Nil
  show ?case by simp
next
  case (Cons prompt prompts)
  let ?c = "Call (batchRequest config prompt) (generateContent env tr (batchRequest config prompt))"
  from Cons.IH [of "Suc index" "tr @ [?c]"] obtain new where
    "snd (issueAll env config prompts (Suc index) (tr @ [?c])) = (tr @ [?c]) @ new" "saved new = []"
    by blast
  then have "snd (issueAll env config (prompt # prompts) index tr) = tr @ (?c # new)"
    "saved (?c # new) = []"
    by (simp_all add: saved_def)
  then show ?case by blast
qed

lemma set_successPaths: "set (successPaths rs) = (\<Union>r\<in>set rs. set (successPaths [r]))"
  by (auto simp: successPaths_def)

lemma set_successPaths_insort:
  "set (successPaths (map snd (insort_key fst x settled)))
     = set (successPaths [snd x]) \<union> set (successPaths (map snd settled))"
proof -
  have "set (map snd (insort_key fst x settled)) = insert (snd x) (set (map snd settled))"
    by (simp add: set_insort_key)
  then show ?thesis
    by (subst set_successPaths, subst (3) set_successPaths) auto
qed

lemma settleAll_log:
  "\<exists>new. snd (settleAll env outputDir pending settled tr) = tr @ new \<and>
     set (successPaths (map snd (fst (settleAll env outputDir pending settled tr))))
       = set (successPaths (map snd settled)) \<union> set (saved new)"
proof (induction env outputDir pending settled tr rule: settleAll.induct)
  case (1 env outputDir pending settled tr)
  show ?case
  proof (cases "pending = []")
    case True
    then have "settleAll env outputDir pending settled tr = (settled, tr)"
      by (subst settleAll.simps) simp
    then show ?thesis
      by simp
  next
    case False
    let ?k = "pick env tr (map fst pending) mod length pending"
    let ?it = "parallelItem env outputDir (fst (pending ! ?k)) (fst (snd (pending ! ?k)))
                 (snd (snd (pending ! ?k))) tr"
    let ?settled = "insort_key fst (fst (pending ! ?k), fst ?it) settled"
    let ?rest = "settleAll env outputDir (take ?k pending @ drop (Suc ?k) pending) ?settled (snd ?it)"
    obtain new1 where n1: "snd ?it = tr @ new1" "saved new1 = successPaths [fst ?it]"
      using parallelItem_log by blast
    obtain new2 where n2: "snd ?rest = snd ?it @ new2"
      "set (successPaths (map snd (fst ?rest))) = set (successPaths (map snd ?settled)) \<union> set (saved new2)"
      using "1.IH" [OF False] by blast
    have unfold: "settleAll env outputDir pending settled tr = ?rest"
      using False by (simp add: settleAll.simps [of env outputDir pending])
    have "snd (settleAll env outputDir pending settled tr) = snd ?it @ new2"
      by (simp only: unfold n2(1))
    then have "snd (settleAll env outputDir pending settled tr) = tr @ (new1 @ new2)"
      by (simp add: n1(1))
    moreover have "set (successPaths (map snd (fst (settleAll env outputDir pending settled tr))))
        = set (successPaths (map snd ?settled)) \<union> set (saved new2)"
      by (simp only: unfold n2(2))
    then have "set (successPaths (map snd (fst (settleAll env outputDir pending settled tr))))
        = set (successPaths (map snd settled)) \<union> set (saved (new1 @ new2))"
      by (simp only: set_successPaths_insort snd_conv saved_append set_append n1(2)) auto
    ultimately show ?thesis by blast
  qed
qed

lemma batchResults_log:
  "\<exists>new. snd (batchResults env outputDir config parallel' prompts tr) = tr @ new \<and>
     set (saved new) \<subseteq> set (successPaths (fst (batchResults env outputDir config parallel' prompts tr)))"
proof (cases parallel')
  case False
  obtain new where "snd (sequentialLoop env outputDir config prompts 0 [] tr) = tr @ new"
    "successPaths (fst (sequentialLoop env outputDir config prompts 0 [] tr)) = successPaths [] @ saved new"
    using sequentialLoop_log by blast
  with False show ?thesis
    by (simp add: batchResults_def)
next
  case True
  let ?is = "issueAll env config prompts 0 tr"
  let ?st = "settleAll env outputDir (fst ?is) [] (snd ?is)"
  obtain new1 where n1: "snd ?is = tr @ new1" "saved new1 = []"
    using issueAll_log by blast
  obtain new2 where n2: "snd ?st = snd ?is @ new2"
    "set (successPaths (map snd (fst ?st))) = set (successPaths (map snd ([] :: (nat \<times> batchOutcome) list))) \<union> set (saved new2)"
    using settleAll_log [of env outputDir "fst ?is" "[]" "snd ?is"] by blast
  have b: "batchResults env outputDir config parallel' prompts tr = (map snd (fst ?st), snd ?st)"
    using True by (simp add: batchResults_def parallelBatch_def split: prod.splits)
  have "snd (batchResults env outputDir config parallel' prompts tr) = snd ?is @ new2"
    by (simp only: b n2(1) snd_conv)
  then have "snd (batchResults env outputDir config parallel' prompts tr) = tr @ (new1 @ new2)"
    by (simp add: n1(1))
  moreover have "set (successPaths (fst (batchResults env outputDir config parallel' prompts tr)))
      = set (saved new2)"
    by (simp only: b n2(2) fst_conv) (simp add: successPaths_def)
  then have "set (saved (new1 @ new2))
      \<subseteq> set (successPaths (fst (batchResults env outputDir config parallel' prompts tr)))"
    by (simp add: n1(2))
  ultimately show ?thesis by blast
qed

lemma batchLine_success:
  "r \<in> set results \<Longrightarrow> o_success r \<Longrightarrow> sublist (showOpt (o_filepath r)) (batchLine r)"
  by (simp only: batchLine_def if_True) (rule sublist_skip, rule sublist_append_leftI)

lemma batchReport_lists:
  assumes "p \<in> set (successPaths results)"
  shows "sublist p (batchReport results)"
proof -
  from assms obtain r where r: "r \<in> set results" "o_success r" "p = showOpt (o_filepath r)"
    by (auto simp: successPaths_def split: if_splits)
  then have "sublist p (batchLine r)"
    by (simp add: batchLine_success)
  moreover have "sublist (batchLine r) (joinWith [CHR 0x0A] (map batchLine results))"
    using r(1) by (intro sublist_joinWith) simp
  ultimately have "sublist p (joinWith [CHR 0x0A] (map batchLine results))"
    using sublist_order.order.trans by blast
  then show ?thesis
    unfolding batchReport_def
    by (intro sublist_skip)
qed

lemma handleBatchGenerate_reports:
  assumes "handleBatchGenerate env args tr = (Inr res, tr')"
  shows "\<exists>t new. res = textResult t \<and> tr' = tr @ new \<and> (\<forall>p\<in>set (saved new). sublist p t)"
proof (cases "parse (BatchGenerateArgsSchema args)")
  case (Inl e)
  with assms show ?thesis by (simp add: handleBatchGenerate_def)
next
  case (Inr a)
  obtain prompts outputDir config parallel' where a: "a = (prompts, outputDir, config, parallel')"
    by (cases a)
  let ?b = "batchResults env (orDefault outputDir ''.'') config (orDefault parallel' False) prompts tr"
  obtain new where new: "snd ?b = tr @ new" "set (saved new) \<subseteq> set (successPaths (fst ?b))"
    using batchResults_log by blast
  have "handleBatchGenerate env args tr = (Inr (textResult (batchReport (fst ?b))), snd ?b)"
    by (simp only: handleBatchGenerate_def Inr a sum.case prod.case split_beta fst_conv snd_conv)
  with assms have "res = textResult (batchReport (fst ?b))" "tr' = tr @ new"
    using new(1) by simp_all
  moreover have "\<forall>p\<in>set (saved new). sublist p (batchReport (fst ?b))"
    using new(2) batchReport_lists by blast
  ultimately show ?thesis by blast
qed

lemma handleGenerateVariations_run:
  assumes p: "parse (GenerateVariationsArgsSchema args)
      = Inr (imagePath, imageData, count, variationStrength, outputDir, config)"
    and r: "resolveBaseImage env imageData imagePath tr = (Inr (finalImageData, mimeType), tr1)"
  shows "\<exists>new. handleGenerateVariations env args tr
             = (Inr (textResult (variationReport (saved new))), tr1 @ new) \<and>
           requests new = map (variationRequest env (variationPrompts variationStrength)
               (InlineDataPart finalImageData mimeType) (variationConfig config variationStrength) count)
             [0..<nat \<lceil>count\<rceil>]"
proof -
  let ?loop = "variationLoop env (variationPrompts variationStrength)
      (InlineDataPart finalImageData mimeType) (variationConfig config variationStrength)
      (orDefault outputDir ''.'') count 0 [] tr1"
  obtain new where new: "snd ?loop = tr1 @ new"
    "requests new = map (variationRequest env (variationPrompts variationStrength)
        (InlineDataPart finalImageData mimeType) (variationConfig config variationStrength) count)
      [0..<nat \<lceil>count\<rceil>]"
    "fst ?loop = [] @ saved new"
    using variationLoop_log by blast
  have "handleGenerateVariations env args tr = (Inr (textResult (variationReport (fst ?loop))), snd ?loop)"
    by (simp only: handleGenerateVariations_def p r sum.case prod.case split_beta fst_conv snd_conv)
  with new show ?thesis by simp
qed

lemma variationReport_lists:
  assumes "p \<in> set results"
  shows "sublist p (variationReport results)"
proof -
  have "sublist p (''- '' @ p)"
    by (rule sublist_append_leftI)
  moreover have "sublist (''- '' @ p) (joinWith [CHR 0x0A] (map (\<lambda>f. ''- '' @ f) results))"
    using assms by (intro sublist_joinWith) (simp add: image_iff)
  ultimately have "sublist p (joinWith [CHR 0x0A] (map (\<lambda>f. ''- '' @ f) results))"
    using sublist_order.order.trans by blast
  then show ?thesis
    unfolding variationReport_def
    by (intro sublist_skip)
qed

lemma handleGenerateVariations_reports:
  assumes "handleGenerateVariations env args tr = (Inr res, tr')"
  shows "\<exists>t new. res = textResult t \<and> tr' = tr @ new \<and> (\<forall>p\<in>set (saved new). sublist p t)"
proof (cases "parse (GenerateVariationsArgsSchema args)")
  case (Inl e)
  with assms show ?thesis by (simp add: handleGenerateVariations_def)
next
  case (Inr a)
  obtain imagePath imageData count variationStrength outputDir config where
    a: "a = (imagePath, imageData, count, variationStrength, outputDir, config)"
    by (cases a)
  obtain r tr1 where r: "resolveBaseImage env imageData imagePath tr = (r, tr1)"
    by (cases "resolveBaseImage env imageData imagePath tr")
  from resolveBaseImage_log [OF r] obtain new1 where n1: "tr1 = tr @ new1" "saved new1 = []"
    by blast
  show ?thesis
  proof (cases r)
    case (Inl e)
    have "handleGenerateVariations env args tr = (Inl e, tr1)"
      by (simp only: handleGenerateVariations_def Inr a r Inl sum.case prod.case)
    with assms show ?thesis by simp
  next
    case im: (Inr i)
    obtain finalImageData mimeType where i: "i = (finalImageData, mimeType)"
      by (cases i)
    from handleGenerateVariations_run [OF Inr [unfolded a] r [unfolded im i]] obtain new where
      "handleGenerateVariations env args tr = (Inr (textResult (variationReport (saved new))), tr1 @ new)"
      by blast
    with assms have "res = textResult (variationReport (saved new))" "tr' = tr1 @ new"
      by simp_all
    moreover have "\<forall>p\<in>set (saved new). sublist p (variationReport (saved new))"
      using variationReport_lists by blast
    ultimately show ?thesis
      by (intro reports_after [OF n1]) blast
  qed
qed

lemma dispatch_reports:
  assumes "dispatch env name args tr = (Inr res, tr')"
  shows "\<exists>t new. res = textResult t \<and> tr' = tr @ new \<and> (\<forall>p\<in>set (saved new). sublist p t)"
proof -
  consider "handleGenerateImage env args tr = (Inr res, tr')"
    | "handleEditImage env args tr = (Inr res, tr')"
    | "handleAnalyzeImage env args tr = (Inr res, tr')"
    | "handleMultiImageEdit env args tr = (Inr res, tr')"
    | "handleBatchGenerate env args tr = (Inr res, tr')"
    | "handleGenerateVariations env args tr = (Inr res, tr')"
    | "handleGenerateWithTemplate env args tr = (Inr res, tr')"
    | "handleCompareImages env args tr = (Inr res, tr')"
    using assms unfolding dispatch_def by (auto split: if_splits)
  then show ?thesis
    by cases
      (erule handleGenerateImage_reports handleEditImage_reports handleAnalyzeImage_reports
        handleMultiImageEdit_reports handleBatchGenerate_reports handleGenerateVariations_reports
        handleGenerateWithTemplate_reports handleCompareImages_reports)+
qed



lemma saveImage_shape:
  "\<exists>fs. snd (saveImage env outputDir filename imageData tr) = tr @ fs \<and>
     savesOf outputDir (join env outputDir filename) fs \<and>
     saved fs = (case fst (saveImage env outputDir filename imageData tr) of Inr fp \<Rightarrow> [fp] | Inl e \<Rightarrow> [])"
proof (cases "mkdir env tr outputDir")
  case (Some m)
  then have "snd (saveImage env outputDir filename imageData tr) = tr @ [Mkdir outputDir (Some m)]"
    and "fst (saveImage env outputDir filename imageData tr) = Inl (Error m)"
    by (simp_all add: saveImage_def fsMkdir_def)
  then show ?thesis by simp
next
  case None
  let ?tr1 = "tr @ [Mkdir outputDir None]"
  let ?p = "join env outputDir filename"
  let ?w = "writeFile env ?tr1 ?p imageData"
  from None have s: "snd (saveImage env outputDir filename imageData tr)
      = tr @ [Mkdir outputDir None, Write ?p imageData ?w]"
    by (cases ?w) (simp_all add: saveImage_def fsMkdir_def fsWriteFile_def)
  from None have f: "fst (saveImage env outputDir filename imageData tr)
      = (case ?w of Some m \<Rightarrow> Inl (Error m) | None \<Rightarrow> Inr ?p)"
    by (cases ?w) (simp_all add: saveImage_def fsMkdir_def fsWriteFile_def)
  have "saved [Mkdir outputDir None, Write ?p imageData ?w]
      = (case fst (saveImage env outputDir filename imageData tr) of Inr fp \<Rightarrow> [fp] | Inl e \<Rightarrow> [])"
    unfolding f by (cases ?w) (simp_all add: saved_def)
  with s show ?thesis
    by (intro exI [of _ "[Mkdir outputDir None, Write ?p imageData ?w]"]) simp
qed

lemma variationStep_attempt:
  "\<exists>seg. snd (variationStep env basePrompt imagePart gc outputDir count i results tr) = tr @ seg \<and>
     attemptLog env outputDir (variationRequest env basePrompt imagePart gc count i) i tr seg \<and>
     fst (variationStep env basePrompt imagePart gc outputDir count i results tr) = results @ saved seg"
proof -
  let ?req = "variationRequest env basePrompt imagePart gc count i"
  let ?r = "generateContent env tr ?req"
  let ?tr1 = "tr @ [Call ?req ?r]"
  let ?st = "variationStep env basePrompt imagePart gc outputDir count i results tr"
  have call: "callModel env ?req tr = (?r, ?tr1)"
    by (simp add: callModel_def)
  have bare: "?st = (results, ?tr1) \<Longrightarrow> ?thesis"
    by (intro exI [of _ "[Call ?req ?r]"]) (simp add: attemptLog_def)
  show ?thesis
  proof (cases ?r)
    case (Inl m)
    then have "?st = (results, ?tr1)"
      by (simp add: variationStep_def call)
    then show ?thesis by (rule bare)
  next
    case (Inr resp)
    show ?thesis
    proof (cases "firstParts resp")
      case None
      with Inr have "?st = (results, ?tr1)"
        by (simp add: variationStep_def call)
      then show ?thesis by (rule bare)
    next
      case (Some ps)
      show ?thesis
      proof (cases "findInlineData ps")
        case None
        with Inr Some have "?st = (results, ?tr1)"
          by (simp add: variationStep_def call)
        then show ?thesis by (rule bare)
      next
        case found: (Some im)
        obtain imageData mimeType where im: "im = (imageData, mimeType)"
          by (cases im)
        let ?s = "saveImage env outputDir (variationFilename env i ?tr1) imageData ?tr1"
        obtain fs where fs: "snd ?s = ?tr1 @ fs"
          "savesOf outputDir (join env outputDir (variationFilename env i ?tr1)) fs"
          "saved fs = (case fst ?s of Inr fp \<Rightarrow> [fp] | Inl e \<Rightarrow> [])"
          using saveImage_shape by blast
        have step: "?st = (case fst ?s of Inl e \<Rightarrow> results | Inr fp \<Rightarrow> results @ [fp], snd ?s)"
          using Inr Some found im
          by (cases ?s) (auto simp: variationStep_def call split: sum.splits)
        have "snd ?st = tr @ (Call ?req ?r # fs)"
          by (simp add: step fs(1))
        moreover have "attemptLog env outputDir ?req i tr (Call ?req ?r # fs)"
          using fs(2) by (simp add: attemptLog_def)
        moreover have "fst ?st = results @ saved (Call ?req ?r # fs)"
          using fs(3) by (simp add: step saved_def split: sum.splits)
        ultimately show ?thesis by blast
      qed
    qed
  qed
qed

lemma variationLoop_attempts:
  "\<exists>segs. snd (variationLoop env basePrompt imagePart gc outputDir count i results tr) = tr @ concat segs \<and>
     length segs = nat \<lceil>count\<rceil> - i \<and>
     (\<forall>j<length segs. attemptLog env outputDir
         (variationRequest env basePrompt imagePart gc count (i + j)) (i + j)
         (tr @ concat (take j segs)) (segs ! j)) \<and>
     fst (variationLoop env basePrompt imagePart gc outputDir count i results tr) = results @ saved (concat segs)"
proof (induction env basePrompt imagePart gc outputDir count i results tr rule: variationLoop.induct)
  case (1 env basePrompt imagePart gc outputDir count i results tr)
  show ?case
  proof (cases "of_nat i < count")
    case False
    then have "\<not> i < nat \<lceil>count\<rceil>"
      by (simp add: loop_guard)
    with False show ?thesis
      by (intro exI [of _ "[]"])
        (simp add: variationLoop.simps [of env basePrompt imagePart gc outputDir count i])
  next
    case True
    then have lt: "i < nat \<lceil>count\<rceil>"
      by (simp add: loop_guard)
    let ?st = "variationStep env basePrompt imagePart gc outputDir count i results tr"
    let ?rest = "variationLoop env basePrompt imagePart gc outputDir count (Suc i) (fst ?st) (snd ?st)"
    obtain seg where s1: "snd ?st = tr @ seg"
      "attemptLog env outputDir (variationRequest env basePrompt imagePart gc count i) i tr seg"
      "fst ?st = results @ saved seg"
      using variationStep_attempt by blast
    obtain segs where s2: "snd ?rest = snd ?st @ concat segs"
      "length segs = nat \<lceil>count\<rceil> - Suc i"
      "\<forall>j<length segs. attemptLog env outputDir
         (variationRequest env basePrompt imagePart gc count (Suc i + j)) (Suc i + j)
         (snd ?st @ concat (take j segs)) (segs ! j)"
      "fst ?rest = fst ?st @ saved (concat segs)"
      using "1.IH" [OF True] by blast
    have unfold: "variationLoop env basePrompt imagePart gc outputDir count i results tr = ?rest"
      using True by (simp add: variationLoop.simps [of env basePrompt imagePart gc outputDir count i])
    have a: "snd (variationLoop env basePrompt imagePart gc outputDir count i results tr)
        = tr @ concat (seg # segs)"
    proof -
      have "snd (variationLoop env basePrompt imagePart gc outputDir count i results tr) = snd ?st @ concat segs"
        by (simp only: unfold s2(1))
      then show ?thesis by (simp add: s1(1))
    qed
    have b: "length (seg # segs) = nat \<lceil>count\<rceil> - i"
      using lt s2(2) by simp
    have c: "attemptLog env outputDir
         (variationRequest env basePrompt imagePart gc count (i + j)) (i + j)
         (tr @ concat (take j (seg # segs))) ((seg # segs) ! j)" if "j < length (seg # segs)" for j
    proof (cases j)
      case 0
      with s1(2) show ?thesis by simp
    next
      case (Suc j')
      with that have "j' < length segs" by simp
      with s2(3) have "attemptLog env outputDir
         (variationRequest env basePrompt imagePart gc count (Suc i + j')) (Suc i + j')
         (snd ?st @ concat (take j' segs)) (segs ! j')"
        by blast
      then show ?thesis
        by (simp add: Suc s1(1))
    qed
    have d: "fst (variationLoop env basePrompt imagePart gc outputDir count i results tr)
        = results @ saved (concat (seg # segs))"
    proof -
      have "fst (variationLoop env basePrompt imagePart gc outputDir count i results tr)
          = fst ?st @ saved (concat segs)"
        by (simp only: unfold s2(4))
      then show ?thesis by (simp add: s1(3))
    qed
    from a b c d show ?thesis
      by blast
  qed
qed

lemma attemptLog_requests: "attemptLog env outputDir req i pre seg \<Longrightarrow> requests seg = [req]"
proof -
  have "savesOf outputDir p fs \<Longrightarrow> requests fs = []" for p fs
    by (induction outputDir p fs rule: savesOf.induct) (simp_all add: requests_def)
  then show "attemptLog env outputDir req i pre seg \<Longrightarrow> requests seg = [req]"
    by (auto simp: attemptLog_def requests_def split: list.splits event.splits)
qed

lemma handleGenerateVariations_attempts:
  assumes p: "parse (GenerateVariationsArgsSchema args)
      = Inr (imagePath, imageData, count, variationStrength, outputDir, config)"
    and r: "resolveBaseImage env imageData imagePath tr = (Inr (finalImageData, mimeType), tr1)"
  shows "\<exists>segs. handleGenerateVariations env args tr
             = (Inr (textResult (variationReport (saved (concat segs)))), tr1 @ concat segs) \<and>
           length segs = nat \<lceil>count\<rceil> \<and>
           (\<forall>j<length segs. attemptLog env (orDefault outputDir ''.'')
               (variationRequest env (variationPrompts variationStrength)
                  (InlineDataPart finalImageData mimeType) (variationConfig config variationStrength) count j) j
               (tr1 @ concat (take j segs)) (segs ! j))"
proof -
  let ?loop = "variationLoop env (variationPrompts variationStrength)
      (InlineDataPart finalImageData mimeType) (variationConfig config variationStrength)
      (orDefault outputDir ''.'') count 0 [] tr1"
  obtain segs where segs: "snd ?loop = tr1 @ concat segs"
    "length segs = nat \<lceil>count\<rceil> - 0"
    "\<forall>j<length segs. attemptLog env (orDefault outputDir ''.'')
         (variationRequest env (variationPrompts variationStrength)
            (InlineDataPart finalImageData mimeType) (variationConfig config variationStrength) count (0 + j)) (0 + j)
         (tr1 @ concat (take j segs)) (segs ! j)"
    "fst ?loop = [] @ saved (concat segs)"
    using variationLoop_attempts by blast
  have "handleGenerateVariations env args tr = (Inr (textResult (variationReport (fst ?loop))), snd ?loop)"
    by (simp only: handleGenerateVariations_def p r sum.case prod.case split_beta fst_conv snd_conv)
  with segs show ?thesis
    by (intro exI [of _ segs]) simp
qed

text \<open>
  Claim C6: a \<^verbatim>\<open>generate_variations\<close> call with \<^verbatim>\<open>count = k\<close> whose arguments are
  valid and whose base image could be read makes exactly \<open>k\<close> attempts, strictly one
  after the other: what the call adds to the log is \<open>k\<close> consecutive pieces, and piece
  \<open>i\<close> is the request \<^verbatim>\<open>variation i+1 of k\<close>, answered by the service as it stands
  after all the earlier pieces, followed by nothing but the \<^verbatim>\<open>mkdir\<close> and the write of
  this attempt's own file. So request \<open>i+1\<close> goes out only after attempt \<open>i\<close> has its
  reply and has finished saving or has failed. This holds whatever the replies are and
  whether saving works or not; the call returns a success result, and the report lists
  exactly the files that were saved, in the order of the attempts.
\<close>

theorem variations_attempts_survive_failures:
  assumes "parse (GenerateVariationsArgsSchema args)
      = Inr (imagePath, imageData, of_nat k, variationStrength, outputDir, config)"
    and "resolveBaseImage env imageData imagePath tr = (Inr (finalImageData, mimeType), tr1)"
  shows "\<exists>segs. callTool env ''generate_variations'' args tr
             = (textResult (variationReport (saved (concat segs))), tr1 @ concat segs) \<and>
           length segs = k \<and>
           (\<forall>i<k. attemptLog env (orDefault outputDir ''.'')
               (variationRequest env (variationPrompts variationStrength)
                  (InlineDataPart finalImageData mimeType) (variationConfig config variationStrength) (of_nat k) i) i
               (tr1 @ concat (take i segs)) (segs ! i)) \<and>
           requests (concat segs) = map (variationRequest env (variationPrompts variationStrength)
               (InlineDataPart finalImageData mimeType) (variationConfig config variationStrength) (of_nat k))
             [0..<k]"
proof -
  let ?req = "variationRequest env (variationPrompts variationStrength)
      (InlineDataPart finalImageData mimeType) (variationConfig config variationStrength) (of_nat k)"
  from handleGenerateVariations_attempts [OF assms] obtain segs where segs:
    "handleGenerateVariations env args tr
       = (Inr (textResult (variationReport (saved (concat segs)))), tr1 @ concat segs)"
    "length segs = nat \<lceil>(of_nat k :: rat)\<rceil>"
    "\<forall>j<length segs. attemptLog env (orDefault outputDir ''.'') (?req j) j
        (tr1 @ concat (take j segs)) (segs ! j)"
    by blast
  have len: "length segs = k"
    using segs(2) by simp
  from handleGenerateVariations_run [OF assms] obtain new where new:
    "handleGenerateVariations env args tr = (Inr (textResult (variationReport (saved new))), tr1 @ new)"
    "requests new = map ?req [0..<nat \<lceil>(of_nat k :: rat)\<rceil>]"
    by blast
  from segs(1) new(1) have "new = concat segs"
    by simp
  with new(2) have req: "requests (concat segs) = map ?req [0..<k]"
    by simp
  have "callTool env ''generate_variations'' args tr
      = (textResult (variationReport (saved (concat segs))), tr1 @ concat segs)"
    using segs(1) by (simp add: callTool_def dispatch_def)
  with len segs(3) req show ?thesis
    by (intro exI [of _ segs]) simp
qed

text \<open>With the default count of 3 and a service that throws on the second request: the
  log is the read of the base image, then request, \<^verbatim>\<open>mkdir\<close>, write for the first
  attempt, the request of the second, and request, \<^verbatim>\<open>mkdir\<close>, write for the third; the
  report lists the first and the third variation.\<close>

theorem variations_attempts_survive_failures_witness:
  "parse (GenerateVariationsArgsSchema (Some (JObj [(''imagePath'', JStr ''photo.png''), (''outputDir'', JStr ''out'')])))
      = Inr (Some ''photo.png'', None, of_nat 3, moderate, Some ''out'', None)
   \<and> resolveBaseImage (scripted [Inr (imageResponse ''image/png''), Inl ''boom'', Inr (imageResponse ''image/png'')])
        None (Some ''photo.png'') []
      = (Inr (''QUJD'', ''image/png''), [Read ''photo.png'' (Inr ''QUJD'')])
   \<and> fst (callTool (scripted [Inr (imageResponse ''image/png''), Inl ''boom'', Inr (imageResponse ''image/png'')])
        ''generate_variations''
        (Some (JObj [(''imagePath'', JStr ''photo.png''), (''outputDir'', JStr ''out'')])) [])
      = textResult (''Generated 2 variations:'' @ [CHR 0x0A]
          @ ''- out/variation-1-2025-01-02T03-04-05-678Z.png'' @ [CHR 0x0A]
          @ ''- out/variation-3-2025-01-02T03-04-05-678Z.png'')
   \<and> map isCall (snd (callTool
        (scripted [Inr (imageResponse ''image/png''), Inl ''boom'', Inr (imageResponse ''image/png'')])
        ''generate_variations''
        (Some (JObj [(''imagePath'', JStr ''photo.png''), (''outputDir'', JStr ''out'')])) []))
      = [False, True, False, False, True, True, False, False]
   \<and> saved (snd (callTool
        (scripted [Inr (imageResponse ''image/png''), Inl ''boom'', Inr (imageResponse ''image/png'')])
        ''generate_variations''
        (Some (JObj [(''imagePath'', JStr ''photo.png''), (''outputDir'', JStr ''out'')])) []))
      = [''out/variation-1-2025-01-02T03-04-05-678Z.png'', ''out/variation-3-2025-01-02T03-04-05-678Z.png'']
   \<and> length (requests (snd (callTool
        (scripted [Inr (imageResponse ''image/png''), Inl ''boom'', Inr (imageResponse ''image/png'')])
        ''generate_variations''
        (Some (JObj [(''imagePath'', JStr ''photo.png''), (''outputDir'', JStr ''out'')])) []))) = 3"
proof -
  let ?E = "scripted [Inr (imageResponse ''image/png''), Inl ''boom'', Inr (imageResponse ''image/png'')]"
  let ?A = "Some (JObj [(''imagePath'', JStr ''photo.png''), (''outputDir'', JStr ''out'')])"
  have h1: "parse (GenerateVariationsArgsSchema ?A)
      = Inr (Some ''photo.png'', None, of_nat 3, moderate, Some ''out'', None)"
    by code_simp
  have h2: "resolveBaseImage ?E None (Some ''photo.png'') []
      = (Inr (''QUJD'', ''image/png''), [Read ''photo.png'' (Inr ''QUJD'')])"
    by code_simp
  have c: "fst (callTool ?E ''generate_variations'' ?A [])
      = textResult (''Generated 2 variations:'' @ [CHR 0x0A]
          @ ''- out/variation-1-2025-01-02T03-04-05-678Z.png'' @ [CHR 0x0A]
          @ ''- out/variation-3-2025-01-02T03-04-05-678Z.png'')"
    by code_simp
  have o: "map isCall (snd (callTool ?E ''generate_variations'' ?A []))
      = [False, True, False, False, True, True, False, False]"
    by code_simp
  have s: "saved (snd (callTool ?E ''generate_variations'' ?A []))
      = [''out/variation-1-2025-01-02T03-04-05-678Z.png'', ''out/variation-3-2025-01-02T03-04-05-678Z.png'']"
    by code_simp
  from variations_attempts_survive_failures [OF h1 h2] obtain segs where
    "snd (callTool ?E ''generate_variations'' ?A []) = [Read ''photo.png'' (Inr ''QUJD'')] @ concat segs"
    "length (requests (concat segs)) = 3"
    by (metis snd_conv length_map length_upt diff_zero)
  then have "length (requests (snd (callTool ?E ''generate_variations'' ?A []))) = 3"
    by (simp add: requests_def)
  with h1 h2 c o s show ?thesis
    by blast
qed

lemma strengthTemperature_cases:
  "strengthTemperature s = (case s of subtle \<Rightarrow> 3 / 10 | moderate \<Rightarrow> 7 / 10 | strong \<Rightarrow> 12 / 10)"
  by (cases s) (simp_all add: strengthTemperature_def)

lemma variationConfig_temperature:
  "gc_temperature (variationConfig config s)
     = Some (case callerTemperature config of Some t \<Rightarrow> t | None \<Rightarrow> strengthTemperature s)"
  by (simp add: variationConfig_def callerTemperature_def split: option.splits)

text \<open>
  Claim C7: every request a \<^verbatim>\<open>generate_variations\<close> call sends carries the temperature
  of the caller's config when the config has one, and otherwise (no config, or a config
  without temperature) the temperature of the variation strength: 0.3 for subtle, 0.7 for
  moderate, 1.2 for strong.
\<close>

theorem variation_temperature:
  assumes "parse (GenerateVariationsArgsSchema args)
      = Inr (imagePath, imageData, count, variationStrength, outputDir, config)"
  shows "\<forall>req\<in>set (requests (drop (length tr) (snd (handleGenerateVariations env args tr)))).
           requestTemperature req = Some (case callerTemperature config of
               Some t \<Rightarrow> t
             | None \<Rightarrow> (case variationStrength of subtle \<Rightarrow> 3 / 10 | moderate \<Rightarrow> 7 / 10 | strong \<Rightarrow> 12 / 10))"
proof -
  obtain r tr1 where r: "resolveBaseImage env imageData imagePath tr = (r, tr1)"
    by (cases "resolveBaseImage env imageData imagePath tr")
  from resolveBaseImage_log [OF r] obtain new1 where n1: "tr1 = tr @ new1" "requests new1 = []"
    by blast
  show ?thesis
  proof (cases r)
    case (Inl e)
    have "handleGenerateVariations env args tr = (Inl e, tr1)"
      by (simp only: handleGenerateVariations_def assms r Inl sum.case prod.case)
    then show ?thesis
      by (simp add: n1)
  next
    case (Inr i)
    obtain finalImageData mimeType where i: "i = (finalImageData, mimeType)"
      by (cases i)
    let ?gc = "variationConfig config variationStrength"
    from handleGenerateVariations_run [OF assms r [unfolded Inr i]] obtain new where
      new: "handleGenerateVariations env args tr = (Inr (textResult (variationReport (saved new))), tr1 @ new)"
      "requests new = map (variationRequest env (variationPrompts variationStrength)
          (InlineDataPart finalImageData mimeType) ?gc count) [0..<nat \<lceil>count\<rceil>]"
      by blast
    have "requests (drop (length tr) (snd (handleGenerateVariations env args tr)))
        = map (variationRequest env (variationPrompts variationStrength)
          (InlineDataPart finalImageData mimeType) ?gc count) [0..<nat \<lceil>count\<rceil>]"
      by (simp add: new n1)
    moreover have "\<And>j. requestTemperature (variationRequest env (variationPrompts variationStrength)
          (InlineDataPart finalImageData mimeType) ?gc count j) = gc_temperature ?gc"
      by (simp add: requestTemperature_def variationRequest_def)
    ultimately show ?thesis
      by (auto simp: variationConfig_temperature strengthTemperature_cases split: option.splits)
  qed
qed

text \<open>A caller's temperature of 0 is kept, although the strength is strong.\<close>

theorem variation_temperature_witness:
  "parse (GenerateVariationsArgsSchema (Some (JObj [(''imageData'', JStr ''QUJD''), (''count'', JNum 2),
       (''variationStrength'', JStr ''strong''), (''config'', JObj [(''temperature'', JNum 0)])])))
     = Inr (None, Some ''QUJD'', 2, strong, None,
         Some \<lparr>temperature = Some 0, topP = None, topK = None, maxOutputTokens = None\<rparr>)
   \<and> map requestTemperature (requests (snd (handleGenerateVariations (scripted [])
       (Some (JObj [(''imageData'', JStr ''QUJD''), (''count'', JNum 2),
          (''variationStrength'', JStr ''strong''), (''config'', JObj [(''temperature'', JNum 0)])])) [])))
     = [Some 0, Some 0]
   \<and> list_all (\<lambda>req. requestTemperature req = Some 0)
       (requests (snd (handleGenerateVariations (scripted [])
       (Some (JObj [(''imageData'', JStr ''QUJD''), (''count'', JNum 2),
          (''variationStrength'', JStr ''strong''), (''config'', JObj [(''temperature'', JNum 0)])])) [])))"
proof -
  let ?A = "Some (JObj [(''imageData'', JStr ''QUJD''), (''count'', JNum 2),
          (''variationStrength'', JStr ''strong''), (''config'', JObj [(''temperature'', JNum 0)])])"
  have h: "parse (GenerateVariationsArgsSchema ?A)
     = Inr (None, Some ''QUJD'', 2, strong, None,
         Some \<lparr>temperature = Some 0, topP = None, topK = None, maxOutputTokens = None\<rparr>)"
    by code_simp
  have c: "map requestTemperature (requests (snd (handleGenerateVariations (scripted []) ?A [])))
     = [Some 0, Some 0]"
    by code_simp
  from variation_temperature [OF h, of "[]" "scripted []"]
  have "list_all (\<lambda>req. requestTemperature req = Some 0)
       (requests (snd (handleGenerateVariations (scripted []) ?A [])))"
    by (simp add: list_all_iff callerTemperature_def)
  with h c show ?thesis
    by blast
qed

section \<open>The order of the outcomes of a batch\<close>

text \<open>In parallel mode there is one outcome for each prompt, in the order of the prompts,
  whatever the order the replies arrive in.\<close>

lemma o_prompt_parallelItem [simp]:
  "o_prompt (fst (parallelItem env outputDir index prompt reply tr)) = prompt"
  by (auto simp: parallelItem_def succeeded_def failed_def split: sum.splits option.splits prod.splits)

lemma issueAll_pending:
  "map fst (fst (issueAll env config prompts index tr)) = [index..<index + length prompts] \<and>
   map (\<lambda>e. fst (snd e)) (fst (issueAll env config prompts index tr)) = prompts"
proof (induction prompts arbitrary: index tr)
  case Nil
  show ?case by simp
next
  case (Cons prompt prompts)
  let ?c = "Call (batchRequest config prompt) (generateContent env tr (batchRequest config prompt))"
  from Cons.IH [of "Suc index" "tr @ [?c]"] show ?case
    by (simp add: upt_conv_Cons del: upt_Suc)
qed

lemma map_fst_insort_key:
  "map fst (insort_key fst x xs) = insort (fst x) (map fst xs)"
  by (induction xs) simp_all

lemma tagged_insort_key:
  "tagged P (insort_key fst x settled) = (o_prompt (snd x) = P (fst x) \<and> tagged P settled)"
  by (auto simp: tagged_def list_all_iff set_insort_key)

lemma remove_nth_set:
  assumes "k < length xs" "distinct (map fst xs)"
  shows "set (map fst (take k xs @ drop (Suc k) xs)) = set (map fst xs) - {fst (xs ! k)}"
    and "distinct (map fst (take k xs @ drop (Suc k) xs))"
proof -
  have xs: "xs = take k xs @ xs ! k # drop (Suc k) xs"
    using assms(1) by (simp add: id_take_nth_drop)
  have d: "distinct (map fst (take k xs) @ fst (xs ! k) # map fst (drop (Suc k) xs))"
    using assms(2) by (subst (asm) xs) simp
  then show "distinct (map fst (take k xs @ drop (Suc k) xs))"
    by auto
  have "set (map fst xs) = set (map fst (take k xs)) \<union> {fst (xs ! k)} \<union> set (map fst (drop (Suc k) xs))"
    by (subst xs) auto
  with d show "set (map fst (take k xs @ drop (Suc k) xs)) = set (map fst xs) - {fst (xs ! k)}"
    by auto
qed

lemma settleAll_settled:
  assumes "distinct (map fst pending)" "set (map fst pending) \<inter> set (map fst settled) = {}"
    "sorted (map fst settled)" "distinct (map fst settled)"
    "list_all (\<lambda>e. fst (snd e) = P (fst e)) pending" "tagged P settled"
  shows "sorted (map fst (fst (settleAll env outputDir pending settled tr))) \<and>
         distinct (map fst (fst (settleAll env outputDir pending settled tr))) \<and>
         set (map fst (fst (settleAll env outputDir pending settled tr)))
           = set (map fst pending) \<union> set (map fst settled) \<and>
         tagged P (fst (settleAll env outputDir pending settled tr))"
  using assms
proof (induction env outputDir pending settled tr rule: settleAll.induct)
  case (1 env outputDir pending settled tr)
  show ?case
  proof (cases "pending = []")
    case True
    then have "settleAll env outputDir pending settled tr = (settled, tr)"
      by (subst settleAll.simps) simp
    with True "1.prems" show ?thesis
      by simp
  next
    case False
    let ?k = "pick env tr (map fst pending) mod length pending"
    let ?e = "pending ! ?k"
    let ?it = "parallelItem env outputDir (fst ?e) (fst (snd ?e)) (snd (snd ?e)) tr"
    let ?pending = "take ?k pending @ drop (Suc ?k) pending"
    let ?settled = "insort_key fst (fst ?e, fst ?it) settled"
    have k: "?k < length pending"
      using False by simp
    then have mem: "?e \<in> set pending"
      by simp
    have unfold: "settleAll env outputDir pending settled tr
        = settleAll env outputDir ?pending ?settled (snd ?it)"
      using False by (subst settleAll.simps) simp
    note rm = remove_nth_set [OF k "1.prems"(1)]
    have p1: "distinct (map fst ?pending)"
      by (rule rm(2))
    have fresh: "fst ?e \<notin> set (map fst settled)"
      using mem "1.prems"(2) by auto
    have p2: "set (map fst ?pending) \<inter> set (map fst ?settled) = {}"
      using rm(1) "1.prems"(2) by (auto simp: map_fst_insort_key set_insort_key)
    have p3: "sorted (map fst ?settled)"
      using "1.prems"(3) by (simp add: map_fst_insort_key sorted_insort)
    have p4: "distinct (map fst ?settled)"
      using "1.prems"(4) fresh by (simp add: map_fst_insort_key distinct_insort)
    have p5: "list_all (\<lambda>e. fst (snd e) = P (fst e)) ?pending"
      using "1.prems"(5) by (auto simp: list_all_iff dest: in_set_takeD in_set_dropD)
    have "fst (snd ?e) = P (fst ?e)"
      using mem "1.prems"(5) by (auto simp: list_all_iff)
    then have p6: "tagged P ?settled"
      using "1.prems"(6) by (simp add: tagged_insort_key)
    have "set (map fst ?pending) \<union> set (map fst ?settled) = set (map fst pending) \<union> set (map fst settled)"
      using rm(1) mem by (auto simp: map_fst_insort_key set_insort_key)
    with "1.IH" [OF False p1 p2 p3 p4 p5 p6] show ?thesis
      by (simp only: unfold)
  qed
qed

lemma parallelBatch_prompts:
  "map o_prompt (fst (parallelBatch env outputDir config prompts tr)) = prompts"
proof -
  let ?is = "issueAll env config prompts 0 tr"
  let ?st = "fst (settleAll env outputDir (fst ?is) [] (snd ?is))"
  let ?P = "\<lambda>i. prompts ! i"
  have idx: "map fst (fst ?is) = [0..<length prompts]"
    and prm: "map (\<lambda>e. fst (snd e)) (fst ?is) = prompts"
    using issueAll_pending [of env config prompts 0 tr] by simp_all
  have len: "length (fst ?is) = length prompts"
    using idx by (metis length_map length_upt diff_zero)
  have tag: "list_all (\<lambda>e. fst (snd e) = ?P (fst e)) (fst ?is)"
  proof -
    have at: "fst (snd (fst ?is ! j)) = prompts ! fst (fst ?is ! j)" if "j < length prompts" for j
    proof -
      have "fst (fst ?is ! j) = j"
        using that len nth_map [of j "fst ?is" fst] idx by simp
      moreover have "fst (snd (fst ?is ! j)) = prompts ! j"
        using that len nth_map [of j "fst ?is" "\<lambda>e. fst (snd e)"] prm by simp
      ultimately show ?thesis by simp
    qed
    have "fst (snd e) = prompts ! fst e" if "e \<in> set (fst ?is)" for e
    proof -
      from that obtain j where "j < length (fst ?is)" "e = fst ?is ! j"
        by (auto simp: in_set_conv_nth)
      with at show ?thesis
        by (simp add: len)
    qed
    then show ?thesis
      by (simp add: list_all_iff)
  qed
  have "sorted (map fst ?st) \<and> distinct (map fst ?st) \<and>
      set (map fst ?st) = set (map fst (fst ?is)) \<union> set (map fst ([] :: (nat \<times> batchOutcome) list)) \<and>
      tagged ?P ?st"
    by (rule settleAll_settled) (simp_all add: idx tag tagged_def)
  then have s: "sorted (map fst ?st)" "distinct (map fst ?st)"
    "set (map fst ?st) = set [0..<length prompts]" "tagged ?P ?st"
    by (simp_all add: idx)
  have st: "map fst ?st = [0..<length prompts]"
    by (rule sorted_distinct_set_unique [OF s(1,2) _ _ s(3)]) simp_all
  have "map o_prompt (map snd ?st) = map ?P (map fst ?st)"
    using s(4) by (simp add: tagged_def list_all_iff)
  also have "\<dots> = prompts"
    by (simp add: st map_nth)
  finally have "map o_prompt (map snd ?st) = prompts" .
  moreover have "fst (parallelBatch env outputDir config prompts tr) = map snd ?st"
    by (simp add: parallelBatch_def split_beta)
  ultimately show ?thesis
    by simp
qed

text \<open>In sequential mode a reply without \<^verbatim>\<open>content.parts\<close> leaves \<^verbatim>\<open>results\<close> as it
  was; when no reply is of that kind there is one outcome for each prompt, in order.\<close>

lemma sequentialItem_skips:
  "generateContent env tr (batchRequest config prompt) = Inr resp \<Longrightarrow> firstParts resp = None \<Longrightarrow>
   fst (sequentialItem env outputDir config i prompt results tr) = results"
  by (simp add: sequentialItem_def callModel_def)

lemma sequentialItem_prompts:
  assumes "\<And>resp. generateContent env tr (batchRequest config prompt) = Inr resp \<Longrightarrow> firstParts resp \<noteq> None"
  shows "map o_prompt (fst (sequentialItem env outputDir config i prompt results tr))
           = map o_prompt results @ [prompt]"
proof (cases "generateContent env tr (batchRequest config prompt)")
  case (Inl m)
  then show ?thesis
    by (simp add: sequentialItem_def callModel_def failed_def)
next
  case (Inr resp)
  with assms obtain ps where "firstParts resp = Some ps"
    by blast
  with Inr show ?thesis
    by (auto simp: sequentialItem_def callModel_def failed_def succeeded_def
        split: option.splits prod.splits sum.splits)
qed

lemma sequentialLoop_prompts:
  assumes "\<And>tr req resp. generateContent env tr req = Inr resp \<Longrightarrow> firstParts resp \<noteq> None"
  shows "map o_prompt (fst (sequentialLoop env outputDir config prompts i results tr))
           = map o_prompt results @ drop i prompts"
  using assms
proof (induction env outputDir config prompts i results tr rule: sequentialLoop.induct)
  case (1 env outputDir config prompts i results tr)
  show ?case
  proof (cases "i < length prompts")
    case False
    then show ?thesis
      by (subst sequentialLoop.simps) simp
  next
    case True
    let ?it = "sequentialItem env outputDir config i (prompts ! i) results tr"
    have "map o_prompt (fst (sequentialLoop env outputDir config prompts i results tr))
        = map o_prompt (fst ?it) @ drop (Suc i) prompts"
      using True "1.IH" [OF True "1.prems"] by (subst sequentialLoop.simps) simp
    also have "map o_prompt (fst ?it) = map o_prompt results @ [prompts ! i]"
      by (rule sequentialItem_prompts) (rule "1.prems")
    finally show ?thesis
      using True by (simp add: Cons_nth_drop_Suc)
  qed
qed

section \<open>Extensions and MIME types\<close>

lemma extension_cases:
  "extension mimeType = (if mimeType = ''image/jpeg'' then ''.jpg'' else ''.png'')"
  by (simp add: extension_def)

lemma mimeTypeOfExt_table:
  "mimeTypeOfExt ''.png'' = ''image/png''"
  "mimeTypeOfExt ''.jpg'' = ''image/jpeg''"
  "mimeTypeOfExt ''.jpeg'' = ''image/jpeg''"
  "mimeTypeOfExt ''.gif'' = ''image/gif''"
  "mimeTypeOfExt ''.webp'' = ''image/webp''"
  "ext \<notin> {''.png'', ''.jpg'', ''.jpeg'', ''.gif'', ''.webp''} \<Longrightarrow> mimeTypeOfExt ext = ''image/png''"
  by (simp_all add: mimeTypeOfExt_def)

lemma resolveImage_path_mime:
  "nonempty imageData = None \<Longrightarrow> nonempty imagePath = Some p \<Longrightarrow> readFile env tr p = Inr d \<Longrightarrow>
   fst (resolveImage env imageData imagePath tr) = Inr (d, mimeTypeOfExt (toLowerCase (extname env p)))"
  by (simp add: resolveImage_def fsReadFile_def)

lemma toLowerCase_upper_extension: "toLowerCase ''.JPG'' = ''.jpg''"
  by code_simp

text \<open>The file a handler built on \<open>generateAndSave\<close> saves is named by its \<open>name\<close>
  function, which sees the MIME type of the response; the names of a batch and of a
  variation end in \<^verbatim>\<open>.png\<close> whatever that type is. The base image of
  \<^verbatim>\<open>generate_variations\<close> knows two extensions.\<close>

lemma generateAndSave_path:
  assumes "generateContent env tr req = Inr resp"
    and "extractImage noCandidates resp = Inr (imageData, mimeType)"
    and "generateAndSave env req noCandidates name outputDir report tr = (Inr res, tr')"
  shows "saved (drop (length tr) tr')
           = [join env outputDir (name mimeType (timestamp env (tr @ [Call req (Inr resp)])))]"
proof -
  let ?tr1 = "tr @ [Call req (Inr resp)]"
  let ?s = "saveImage env outputDir (name mimeType (timestamp env ?tr1)) imageData ?tr1"
  from assms have s: "?s = (Inr (join env outputDir (name mimeType (timestamp env ?tr1))), tr')"
    by (cases ?s) (auto simp: generateAndSave_def callModel_def saveImage_def fsMkdir_def fsWriteFile_def
        split: sum.splits option.splits)
  obtain new where new: "snd ?s = ?tr1 @ new"
    "saved new = (case fst ?s of Inr fp \<Rightarrow> [fp] | Inl e \<Rightarrow> [])"
    using saveImage_log by blast
  from new s have "tr' = tr @ (Call req (Inr resp) # new)"
    "saved (Call req (Inr resp) # new) = [join env outputDir (name mimeType (timestamp env ?tr1))]"
    by (simp_all add: saved_def)
  then show ?thesis
    by simp
qed

lemma batchFilename_png: "suffix ''.png'' (batchFilename env index tr)"
  unfolding batchFilename_def suffix_def by (metis append.assoc)

lemma variationFilename_png: "suffix ''.png'' (variationFilename env i tr)"
  unfolding variationFilename_def suffix_def by (metis append.assoc)

lemma resolveBaseImage_path_mime:
  "nonempty imageData = None \<Longrightarrow> nonempty imagePath = Some p \<Longrightarrow> readFile env tr p = Inr d \<Longrightarrow>
   fst (resolveBaseImage env imageData imagePath tr)
     = Inr (d, if toLowerCase (extname env p) \<in> {''.jpg'', ''.jpeg''} then ''image/jpeg'' else ''image/png'')"
  by (simp add: resolveBaseImage_def fsReadFile_def)

section \<open>A validation error comes before any effect\<close>

text \<open>The operations on the outside world throw an \<^verbatim>\<open>Error\<close>; a validation error can
  only come from the \<^verbatim>\<open>parse\<close> at the head of a handler, when the log is still
  untouched.\<close>

lemma extractImage_Error: "extractImage noCandidates resp = Inl e \<Longrightarrow> \<exists>m. e = Error m"
  by (auto simp: extractImage_def split: response.splits option.splits list.splits candidate.splits)

lemma saveImage_Error: "saveImage env outputDir filename imageData tr = (Inl e, tr') \<Longrightarrow> \<exists>m. e = Error m"
  by (auto simp: saveImage_def fsMkdir_def fsWriteFile_def split: option.splits)

lemma generateAndSave_Error:
  assumes "generateAndSave env req noCandidates name outputDir report tr = (Inl e, tr')"
  shows "\<exists>m. e = Error m"
proof (cases "generateContent env tr req")
  case (Inl m)
  with assms show ?thesis
    by (auto simp: generateAndSave_def callModel_def)
next
  case (Inr resp)
  show ?thesis
  proof (cases "extractImage noCandidates resp")
    case (Inl e')
    with Inr assms have "e = e'"
      by (simp add: generateAndSave_def callModel_def)
    with Inl extractImage_Error show ?thesis
      by blast
  next
    case im: (Inr i)
    obtain imageData mimeType where i: "i = (imageData, mimeType)"
      by (cases i)
    let ?tr1 = "tr @ [Call req (generateContent env tr req)]"
    let ?s = "saveImage env outputDir (name mimeType (timestamp env ?tr1)) imageData ?tr1"
    from assms Inr im i have "?s = (Inl e, tr')"
      by (cases ?s) (auto simp: generateAndSave_def callModel_def split: sum.splits)
    then show ?thesis
      by (rule saveImage_Error)
  qed
qed

lemma resolveImage_Error: "resolveImage env imageData imagePath tr = (Inl e, tr') \<Longrightarrow> \<exists>m. e = Error m"
  by (auto simp: resolveImage_def fsReadFile_def split: option.splits sum.splits)

lemma resolveBaseImage_Error: "resolveBaseImage env imageData imagePath tr = (Inl e, tr') \<Longrightarrow> \<exists>m. e = Error m"
  by (auto simp: resolveBaseImage_def fsReadFile_def split: option.splits sum.splits)

lemma resolveImages_Error:
  "resolveImages env images i imageParts tr = (Inl e, tr') \<Longrightarrow> \<exists>m. e = Error m"
  by (induction images arbitrary: i imageParts tr) (auto split: option.splits sum.splits)

lemma handleGenerateImage_validates_first:
  assumes "handleGenerateImage env args tr = (Inl (ZodError is), tr')"
  shows "tr' = tr"
proof (cases "parse (GenerateImageArgsSchema args)")
  case (Inl e)
  with assms show ?thesis by (simp add: handleGenerateImage_def)
next
  case (Inr a)
  obtain prompt outputDir config where a: "a = (prompt, outputDir, config)"
    by (cases a)
  from assms have "\<exists>req noCandidates name dir report.
      generateAndSave env req noCandidates name dir report tr = (Inl (ZodError is), tr')"
    by (simp only: handleGenerateImage_def Inr a sum.case prod.case) blast
  with generateAndSave_Error show ?thesis
    by blast
qed

lemma handleGenerateWithTemplate_validates_first:
  assumes "handleGenerateWithTemplate env args tr = (Inl (ZodError is), tr')"
  shows "tr' = tr"
proof (cases "parse (PromptTemplateArgsSchema args)")
  case (Inl e)
  with assms show ?thesis by (simp add: handleGenerateWithTemplate_def)
next
  case (Inr a)
  obtain template customization outputDir config where a: "a = (template, customization, outputDir, config)"
    by (cases a)
  from assms have "\<exists>req noCandidates name dir report.
      generateAndSave env req noCandidates name dir report tr = (Inl (ZodError is), tr')"
    by (simp only: handleGenerateWithTemplate_def Inr a sum.case prod.case) blast
  with generateAndSave_Error show ?thesis
    by blast
qed

lemma handleEditImage_validates_first:
  assumes "handleEditImage env args tr = (Inl (ZodError is), tr')"
  shows "tr' = tr"
proof (cases "parse (EditImageArgsSchema args)")
  case (Inl e)
  with assms show ?thesis by (simp add: handleEditImage_def)
next
  case (Inr a)
  obtain prompt imageData imagePath outputDir config where
    a: "a = (prompt, imageData, imagePath, outputDir, config)"
    by (cases a)
  obtain r tr1 where r: "resolveImage env imageData imagePath tr = (r, tr1)"
    by (cases "resolveImage env imageData imagePath tr")
  show ?thesis
  proof (cases r)
    case (Inl e)
    have "handleEditImage env args tr = (Inl e, tr1)"
      by (simp only: handleEditImage_def Inr a r Inl sum.case prod.case)
    with assms resolveImage_Error [OF r [unfolded Inl]] show ?thesis
      by auto
  next
    case im: (Inr i)
    obtain finalImageData mimeType where i: "i = (finalImageData, mimeType)"
      by (cases i)
    from assms have "\<exists>req noCandidates name dir report.
        generateAndSave env req noCandidates name dir report tr1 = (Inl (ZodError is), tr')"
      by (simp only: handleEditImage_def Inr a r im i sum.case prod.case) blast
    with generateAndSave_Error show ?thesis
      by blast
  qed
qed

lemma handleMultiImageEdit_validates_first:
  assumes "handleMultiImageEdit env args tr = (Inl (ZodError is), tr')"
  shows "tr' = tr"
proof (cases "parse (MultiImageEditArgsSchema args)")
  case (Inl e)
  with assms show ?thesis by (simp add: handleMultiImageEdit_def)
next
  case (Inr a)
  obtain prompt images outputDir config where a: "a = (prompt, images, outputDir, config)"
    by (cases a)
  obtain r tr1 where r: "resolveImages env images 0 [] tr = (r, tr1)"
    by (cases "resolveImages env images 0 [] tr")
  show ?thesis
  proof (cases r)
    case (Inl e)
    have "handleMultiImageEdit env args tr = (Inl e, tr1)"
      by (simp only: handleMultiImageEdit_def Inr a r Inl sum.case prod.case)
    with assms resolveImages_Error [OF r [unfolded Inl]] show ?thesis
      by auto
  next
    case im: (Inr imageParts)
    from assms have "\<exists>req noCandidates name dir report.
        generateAndSave env req noCandidates name dir report tr1 = (Inl (ZodError is), tr')"
      by (simp only: handleMultiImageEdit_def Inr a r im sum.case prod.case) blast
    with generateAndSave_Error show ?thesis
      by blast
  qed
qed

lemma handleAnalyzeImage_validates_first:
  assumes "handleAnalyzeImage env args tr = (Inl (ZodError is), tr')"
  shows "tr' = tr"
proof (cases "parse (AnalyzeImageArgsSchema args)")
  case (Inl e)
  with assms show ?thesis by (simp add: handleAnalyzeImage_def)
next
  case (Inr a)
  obtain prompt imageData imagePath config where a: "a = (prompt, imageData, imagePath, config)"
    by (cases a)
  obtain r tr1 where r: "resolveImage env imageData imagePath tr = (r, tr1)"
    by (cases "resolveImage env imageData imagePath tr")
  show ?thesis
  proof (cases r)
    case (Inl e)
    have "handleAnalyzeImage env args tr = (Inl e, tr1)"
      by (simp only: handleAnalyzeImage_def Inr a r Inl sum.case prod.case)
    with assms resolveImage_Error [OF r [unfolded Inl]] show ?thesis
      by auto
  next
    case im: (Inr i)
    obtain finalImageData mimeType where i: "i = (finalImageData, mimeType)"
      by (cases i)
    from assms have False
      by (simp only: handleAnalyzeImage_def Inr a r im i sum.case prod.case)
        (auto simp: callModel_def split: sum.splits response.splits)
    then show ?thesis ..
  qed
qed

lemma handleCompareImages_validates_first:
  assumes "handleCompareImages env args tr = (Inl (ZodError is), tr')"
  shows "tr' = tr"
proof (cases "parse (CompareImagesArgsSchema args)")
  case (Inl e)
  with assms show ?thesis by (simp add: handleCompareImages_def)
next
  case (Inr a)
  obtain image1Path image2Path compareType where a: "a = (image1Path, image2Path, compareType)"
    by (cases a)
  from assms have False
    by (simp only: handleCompareImages_def Inr a sum.case prod.case)
      (auto simp: callModel_def fsReadFile_def split: sum.splits response.splits)
  then show ?thesis ..
qed

lemma handleBatchGenerate_validates_first:
  assumes "handleBatchGenerate env args tr = (Inl (ZodError is), tr')"
  shows "tr' = tr"
proof (cases "parse (BatchGenerateArgsSchema args)")
  case (Inl e)
  with assms show ?thesis by (simp add: handleBatchGenerate_def)
next
  case (Inr a)
  with assms show ?thesis
    by (simp add: handleBatchGenerate_def split_beta)
qed

lemma handleGenerateVariations_validates_first:
  assumes "handleGenerateVariations env args tr = (Inl (ZodError is), tr')"
  shows "tr' = tr"
proof (cases "parse (GenerateVariationsArgsSchema args)")
  case (Inl e)
  with assms show ?thesis by (simp add: handleGenerateVariations_def)
next
  case (Inr a)
  obtain imagePath imageData count variationStrength outputDir config where
    a: "a = (imagePath, imageData, count, variationStrength, outputDir, config)"
    by (cases a)
  obtain r tr1 where r: "resolveBaseImage env imageData imagePath tr = (r, tr1)"
    by (cases "resolveBaseImage env imageData imagePath tr")
  show ?thesis
  proof (cases r)
    case (Inl e)
    have "handleGenerateVariations env args tr = (Inl e, tr1)"
      by (simp only: handleGenerateVariations_def Inr a r Inl sum.case prod.case)
    with assms resolveBaseImage_Error [OF r [unfolded Inl]] show ?thesis
      by auto
  next
    case im: (Inr i)
    obtain finalImageData mimeType where i: "i = (finalImageData, mimeType)"
      by (cases i)
    from handleGenerateVariations_run [OF Inr [unfolded a] r [unfolded im i]] assms show ?thesis
      by auto
  qed
qed

lemma validation_error_before_any_effect:
  assumes "dispatch env name args tr = (Inl (ZodError is), tr')"
  shows "tr' = tr"
proof -
  consider "handleGenerateImage env args tr = (Inl (ZodError is), tr')"
    | "handleEditImage env args tr = (Inl (ZodError is), tr')"
    | "handleAnalyzeImage env args tr = (Inl (ZodError is), tr')"
    | "handleMultiImageEdit env args tr = (Inl (ZodError is), tr')"
    | "handleBatchGenerate env args tr = (Inl (ZodError is), tr')"
    | "handleGenerateVariations env args tr = (Inl (ZodError is), tr')"
    | "handleGenerateWithTemplate env args tr = (Inl (ZodError is), tr')"
    | "handleCompareImages env args tr = (Inl (ZodError is), tr')"
    using assms unfolding dispatch_def by (auto split: if_splits)
  then show ?thesis
    by cases
      (erule handleGenerateImage_validates_first handleEditImage_validates_first
        handleAnalyzeImage_validates_first handleMultiImageEdit_validates_first
        handleBatchGenerate_validates_first handleGenerateVariations_validates_first
        handleGenerateWithTemplate_validates_first handleCompareImages_validates_first)+
qed

end
